theory Spec2Isabelle
  imports Complex_Main "HOL-Library.Sublist" "HOL-Library.AList"
begin

section \<open>Decision Makers Finder: a shallow embedding of \<^verbatim>\<open>scripts/decision_makers_finder.py\<close>\<close>

text \<open>
  The development follows the class \<^verbatim>\<open>DecisionMakersFinder\<close>: query generation,
  the Serper search call, the formatter of search results, the extraction call to the
  language model with its recovery of JSON from the reply, the normalisation of the
  extracted contacts, and the batch loop of \<^verbatim>\<open>run\<close>.

  Python values that come out of \<^verbatim>\<open>json\<close> are dynamically typed, so they are modelled by
  one datatype of JSON values, and every Python operation on them that can raise is a
  function into \<open>py_exn + 'a\<close>, with \<open>Inl\<close> the exception raised.
  A Python \<^verbatim>\<open>str\<close> is modelled as a \<open>string\<close>, one \<open>char\<close> per code point, which
  covers the code points below 256.
\<close>

subsection \<open>Values and exceptions\<close>

text \<open>
  A \<^verbatim>\<open>dict\<close> is an association list in insertion order; a lookup takes the first
  entry of a key and an assignment overwrites it in place or appends a new entry, as
  Python's insertion-ordered dictionaries do. A float is a real number (the
  non-standard literals \<^verbatim>\<open>NaN\<close> and \<^verbatim>\<open>Infinity\<close> are not represented; no function
  below computes with numbers).
\<close>

datatype json =
    JNull
  | JBool bool
  | JInt int
  | JFloat real
  | JStr string
  | JArr "json list"
  | JObj "(string \<times> json) list"

datatype py_exn =
    TypeError
  | AttributeError
  | KeyError
  | IndexError
  | ValueError
  | JSONDecodeError
  | RecursionError
  | ClientError

text \<open>Sequencing of computations that may raise: the first exception wins.\<close>

definition bind_exn :: "py_exn + 'a \<Rightarrow> ('a \<Rightarrow> py_exn + 'b) \<Rightarrow> py_exn + 'b" where
  "bind_exn m f = (case m of Inl e \<Rightarrow> Inl e | Inr v \<Rightarrow> f v)"

text \<open>A \<^verbatim>\<open>for\<close> loop (or a comprehension) whose body may raise, collecting the results.\<close>

fun map_exn :: "('a \<Rightarrow> py_exn + 'b) \<Rightarrow> 'a list \<Rightarrow> py_exn + 'b list" where
  "map_exn f [] = Inr []"
| "map_exn f (x # xs) =
     (case f x of
        Inl e \<Rightarrow> Inl e
      | Inr y \<Rightarrow> (case map_exn f xs of Inl e \<Rightarrow> Inl e | Inr ys \<Rightarrow> Inr (y # ys)))"

subsection \<open>The string operations of Python that the program uses\<close>

text \<open>\<^verbatim>\<open>sub in s\<close> for two strings: \<open>sub\<close> occurs in \<open>s\<close> as a contiguous block.\<close>

fun contains :: "string \<Rightarrow> string \<Rightarrow> bool" where
  "contains sub [] = (sub = [])"
| "contains sub (c # cs) = (prefix sub (c # cs) \<or> contains sub cs)"

text \<open>
  \<^verbatim>\<open>str.isspace\<close> on one character, for the code points below 256: tab, line feed,
  vertical tab, form feed, carriage return, the four separators 0x1C to 0x1F, space,
  next line (0x85) and no-break space (0xA0).
\<close>

definition py_isspace :: "char \<Rightarrow> bool" where
  "py_isspace c \<longleftrightarrow>
     c \<in> set [CHR 0x09, CHR 0x0A, CHR 0x0B, CHR 0x0C, CHR 0x0D, CHR 0x1C, CHR 0x1D,
               CHR 0x1E, CHR 0x1F, CHR 0x20, CHR 0x85, CHR 0xA0]"

text \<open>\<^verbatim>\<open>s.strip()\<close>: leading and trailing whitespace removed.\<close>

definition strip :: "string \<Rightarrow> string" where
  "strip s = rev (dropWhile py_isspace (rev (dropWhile py_isspace s)))"

text \<open>
  \<^verbatim>\<open>s.split(sep)\<close>: the pieces of \<open>s\<close> between the occurrences of \<open>sep\<close>, found from
  left to right without overlap. \<open>split_from sep cur s\<close> scans \<open>s\<close> with the piece read
  so far in \<open>cur\<close>. Python raises \<^verbatim>\<open>ValueError\<close> on the empty separator.
\<close>

fun split_from :: "string \<Rightarrow> string \<Rightarrow> string \<Rightarrow> string list" where
  "split_from sep cur [] = [cur]"
| "split_from sep cur (c # cs) =
     (if prefix sep (c # cs) then cur # split_from sep [] (drop (length sep - 1) cs)
      else split_from sep (cur @ [c]) cs)"

definition py_split :: "string \<Rightarrow> string \<Rightarrow> py_exn + string list" where
  "py_split s sep = (if sep = [] then Inl ValueError else Inr (split_from sep [] s))"

text \<open>\<^verbatim>\<open>xs[i]\<close> on a list, for an index that is not negative.\<close>

definition py_index :: "'a list \<Rightarrow> nat \<Rightarrow> py_exn + 'a" where
  "py_index xs i = (if i < length xs then Inr (xs ! i) else Inl IndexError)"

text \<open>\<^verbatim>\<open>sep.join(xs)\<close>.\<close>

fun join :: "string \<Rightarrow> string list \<Rightarrow> string" where
  "join sep [] = []"
| "join sep [x] = x"
| "join sep (x # y # ys) = x @ sep @ join sep (y # ys)"

subsection \<open>Python's operations on dynamically typed values\<close>

text \<open>\<^verbatim>\<open>bool(v)\<close>: the truth value of \<^verbatim>\<open>if v\<close> and \<^verbatim>\<open>not v\<close>.\<close>

fun py_truthy :: "json \<Rightarrow> bool" where
  "py_truthy JNull = False"
| "py_truthy (JBool b) = b"
| "py_truthy (JInt i) = (i \<noteq> 0)"
| "py_truthy (JFloat r) = (r \<noteq> 0)"
| "py_truthy (JStr s) = (s \<noteq> [])"
| "py_truthy (JArr xs) = (xs \<noteq> [])"
| "py_truthy (JObj kvs) = (kvs \<noteq> [])"

text \<open>
  \<^verbatim>\<open>k in v\<close> for a string \<open>k\<close>: a key of a dict, an element of a list, a substring
  of a string; \<^verbatim>\<open>TypeError\<close> on a value that is not iterable.
\<close>

fun py_in :: "string \<Rightarrow> json \<Rightarrow> py_exn + bool" where
  "py_in k (JObj kvs) = Inr (k \<in> fst ` set kvs)"
| "py_in k (JArr xs) = Inr (JStr k \<in> set xs)"
| "py_in k (JStr s) = Inr (contains k s)"
| "py_in k v = Inl TypeError"

text \<open>\<^verbatim>\<open>v[k]\<close> for a string \<open>k\<close>: only a dict can be subscripted by a string.\<close>

fun py_getitem :: "json \<Rightarrow> string \<Rightarrow> py_exn + json" where
  "py_getitem (JObj kvs) k = (case map_of kvs k of None \<Rightarrow> Inl KeyError | Some v \<Rightarrow> Inr v)"
| "py_getitem v k = Inl TypeError"

text \<open>
  \<^verbatim>\<open>v[0]\<close>: the first element of a list, the first character of a string;
  \<^verbatim>\<open>KeyError\<close> on a dict (the keys of a parsed JSON object are strings).
\<close>

fun py_getitem0 :: "json \<Rightarrow> py_exn + json" where
  "py_getitem0 (JArr xs) = py_index xs 0"
| "py_getitem0 (JStr s) = (case s of [] \<Rightarrow> Inl IndexError | c # cs \<Rightarrow> Inr (JStr [c]))"
| "py_getitem0 (JObj kvs) = Inl KeyError"
| "py_getitem0 v = Inl TypeError"

text \<open>\<^verbatim>\<open>v.get(k, default)\<close>: only a dict has the method.\<close>

fun py_get :: "json \<Rightarrow> string \<Rightarrow> json \<Rightarrow> py_exn + json" where
  "py_get (JObj kvs) k d = Inr (case map_of kvs k of None \<Rightarrow> d | Some v \<Rightarrow> v)"
| "py_get v k d = Inl AttributeError"

text \<open>
  \<^verbatim>\<open>v[k] = x\<close> for a string \<open>k\<close>; the model returns the updated value. Only a dict
  supports it.
\<close>

fun py_setitem :: "json \<Rightarrow> string \<Rightarrow> json \<Rightarrow> py_exn + json" where
  "py_setitem (JObj kvs) k x = Inr (JObj (AList.update k x kvs))"
| "py_setitem v k x = Inl TypeError"

text \<open>
  \<^verbatim>\<open>v[:4]\<close> followed by iteration over the slice: the first four elements of a
  list, the first four characters of a string; nothing else can be sliced.
\<close>

fun py_slice4 :: "json \<Rightarrow> py_exn + json list" where
  "py_slice4 (JArr xs) = Inr (take 4 xs)"
| "py_slice4 (JStr s) = Inr (map (\<lambda>c. JStr [c]) (take 4 s))"
| "py_slice4 v = Inl TypeError"

subsection \<open>LinkedIn URL validation\<close>

definition disallowed :: "string list" where
  "disallowed = [''linkedin.com/company/'', ''linkedin.com/posts/'', ''linkedin.com/pub/dir/'',
                 ''linkedin.com/feed/'', ''linkedin.com/jobs/'', ''linkedin.com/school/'']"

text \<open>\<^verbatim>\<open>isinstance(v, str)\<close>.\<close>

fun is_str :: "json \<Rightarrow> bool" where
  "is_str (JStr s) = True"
| "is_str v = False"

fun the_str :: "json \<Rightarrow> string" where
  "the_str (JStr s) = s"
| "the_str v = []"

text \<open>
  \<^verbatim>\<open>_validate_linkedin_url(url)\<close>: the argument is whatever the language model put
  under the key, so it is any JSON value.
\<close>

definition validate_linkedin_url :: "json \<Rightarrow> string" where
  "validate_linkedin_url url =
     (if \<not> py_truthy url \<or> \<not> is_str url then []
      else let url' = strip (the_str url) in
        if \<not> contains ''linkedin.com/in/'' url' then []
        else if list_ex (\<lambda>d. contains d url') disallowed then []
        else url')"

subsection \<open>Query generation\<close>

text \<open>
  \<^verbatim>\<open>template.format(**kw)\<close> for string arguments: literal text is copied, \<^verbatim>\<open>{{\<close> and
  \<^verbatim>\<open>}}\<close> stand for one brace, and a replacement field \<^verbatim>\<open>{name}\<close> is replaced by the
  argument of that name, which is not scanned again. \<open>format_from kw field t\<close> scans
  the rest \<open>t\<close> of the template; \<open>field\<close> holds the name read so far while inside a
  replacement field. A field name is taken literally: conversions, format
  specifications and attribute or index lookups are not modelled, and no template of
  the program has one.
\<close>

fun format_from :: "(string \<times> string) list \<Rightarrow> string option \<Rightarrow> string \<Rightarrow> py_exn + string" where
  "format_from kw None [] = Inr []"
| "format_from kw (Some name) [] = Inl ValueError"
| "format_from kw None (c # cs) =
     (if c = CHR ''{'' then
        (if cs \<noteq> [] \<and> hd cs = CHR ''{''
         then bind_exn (format_from kw None (tl cs)) (\<lambda>r. Inr (c # r))
         else format_from kw (Some []) cs)
      else if c = CHR ''}'' then
        (if cs \<noteq> [] \<and> hd cs = CHR ''}''
         then bind_exn (format_from kw None (tl cs)) (\<lambda>r. Inr (c # r))
         else Inl ValueError)
      else bind_exn (format_from kw None cs) (\<lambda>r. Inr (c # r)))"
| "format_from kw (Some name) (c # cs) =
     (if c = CHR ''}'' then
        (case map_of kw name of
           None \<Rightarrow> Inl KeyError
         | Some v \<Rightarrow> bind_exn (format_from kw None cs) (\<lambda>r. Inr (v @ r)))
      else format_from kw (Some (name @ [c])) cs)"

definition py_format :: "string \<Rightarrow> (string \<times> string) list \<Rightarrow> py_exn + string" where
  "py_format template kw = format_from kw None template"

definition search_queries :: "string list" where
  "search_queries =
     [''{domain} {company_name} CEO -zoominfo -dnb'',
      ''{domain} {company_name} Founder owner -zoominfo -dnb'',
      ''{domain} {company_name} president chairman -zoominfo -dnb'',
      ''{domain} {company_name} partner -zoominfo -dnb'',
      ''{domain} {company_name} contact email'']"

text \<open>The comprehension that opens \<^verbatim>\<open>process_company\<close>.\<close>

definition generate_queries :: "string \<Rightarrow> string \<Rightarrow> py_exn + string list" where
  "generate_queries domain company_name =
     map_exn (\<lambda>q. py_format q [(''domain'', domain), (''company_name'', company_name)])
       search_queries"

subsection \<open>The outside world\<close>

text \<open>
  What one \<^verbatim>\<open>session.post\<close> does: the call raises (a transport error), or it yields a
  response with a status and a body; reading the body as JSON (\<^verbatim>\<open>response.json()\<close>)
  may raise in turn.
\<close>

datatype http = Raised py_exn | Response int "py_exn + json"

text \<open>
  The environment of a run. The Serper request is determined by the query and the
  OpenRouter request by the summary (everything else in the two payloads is constant),
  so each provider is a function of that string; both are arbitrary. \<^verbatim>\<open>json.loads\<close> and
  Python's \<^verbatim>\<open>str\<close> on a value that is not a string are library functions, taken as
  parameters. When several tasks of one \<^verbatim>\<open>asyncio.gather\<close> raise, the exception that
  reaches the caller is the one raised first in time, which the program does not
  determine: \<open>first_raised\<close> is that choice, given the exceptions of the failing tasks
  in the order of the tasks; it is arbitrary as well.
\<close>

record env =
  serper_post :: "string \<Rightarrow> http"
  openrouter_post :: "string \<Rightarrow> http"
  json_loads :: "string \<Rightarrow> py_exn + json"
  py_str :: "json \<Rightarrow> string"
  first_raised :: "py_exn list \<Rightarrow> py_exn"

subsection \<open>Search client\<close>

text \<open>The value returned in place of a response when the call fails.\<close>

definition empty_result :: "string \<Rightarrow> json" where
  "empty_result query =
     JObj [(''organic'', JArr []), (''searchParameters'', JObj [(''q'', JStr query)])]"

text \<open>
  \<^verbatim>\<open>search_serper\<close>: the handler \<^verbatim>\<open>except Exception\<close> encloses the call and the reading
  of the body, so all three failures end in \<open>empty_result\<close>.
\<close>

definition search_serper :: "env \<Rightarrow> string \<Rightarrow> json" where
  "search_serper E query =
     (case serper_post E query of
        Raised e \<Rightarrow> empty_result query
      | Response status body \<Rightarrow>
          (if status = 200 then (case body of Inl e \<Rightarrow> empty_result query | Inr v \<Rightarrow> v)
           else empty_result query))"

subsection \<open>Result formatter\<close>

text \<open>A replacement field of an f-string: a string as it is, any other value through \<^verbatim>\<open>str\<close>.\<close>

definition fstr :: "(json \<Rightarrow> string) \<Rightarrow> json \<Rightarrow> string" where
  "fstr str v = (case v of JStr s \<Rightarrow> s | _ \<Rightarrow> str v)"

definition result_separator :: string where
  "result_separator = ''\<newline>---\<newline>''"

text \<open>The test \<^verbatim>\<open>'title' in item and 'link' in item and 'snippet' in item\<close>.\<close>

definition has_hit_fields :: "json \<Rightarrow> py_exn + bool" where
  "has_hit_fields item =
     bind_exn (py_in ''title'' item) (\<lambda>t.
       if \<not> t then Inr False
       else bind_exn (py_in ''link'' item) (\<lambda>l.
         if \<not> l then Inr False else py_in ''snippet'' item))"

text \<open>The f-string appended for one hit.\<close>

definition render_hit :: "(json \<Rightarrow> string) \<Rightarrow> json \<Rightarrow> py_exn + string" where
  "render_hit str item =
     bind_exn (py_getitem item ''title'') (\<lambda>t.
     bind_exn (py_getitem item ''link'') (\<lambda>l.
     bind_exn (py_getitem item ''snippet'') (\<lambda>s.
       Inr (''- '' @ fstr str t @ ''\<newline>  '' @ fstr str l @ ''\<newline>  '' @ fstr str s))))"

text \<open>The inner loop, with \<^verbatim>\<open>formatted_results\<close> as accumulator.\<close>

fun format_items :: "(json \<Rightarrow> string) \<Rightarrow> json list \<Rightarrow> string list \<Rightarrow> py_exn + string list" where
  "format_items str [] formatted = Inr formatted"
| "format_items str (item # items) formatted =
     bind_exn (has_hit_fields item) (\<lambda>ok.
       if ok then bind_exn (render_hit str item) (\<lambda>r. format_items str items (formatted @ [r]))
       else format_items str items formatted)"

text \<open>The body of the outer loop: the section of one search result.\<close>

definition format_section :: "(json \<Rightarrow> string) \<Rightarrow> json \<Rightarrow> py_exn + string" where
  "format_section str result =
     bind_exn (py_get result ''searchParameters'' (JObj [])) (\<lambda>params.
     bind_exn (py_get params ''q'' (JStr ''(No query found)'')) (\<lambda>query.
     bind_exn (py_get result ''organic'' (JArr [])) (\<lambda>organic_results.
     bind_exn (py_slice4 organic_results) (\<lambda>items.
     bind_exn (format_items str items []) (\<lambda>formatted_results.
       Inr (''**Search Query:** '' @ fstr str query @ ''\<newline>\<newline>''
            @ join result_separator formatted_results))))))"

text \<open>The outer loop, with \<^verbatim>\<open>summary_sections\<close> as accumulator.\<close>

fun format_sections :: "(json \<Rightarrow> string) \<Rightarrow> json list \<Rightarrow> string list \<Rightarrow> py_exn + string list" where
  "format_sections str [] sections = Inr sections"
| "format_sections str (result # results) sections =
     bind_exn (format_section str result) (\<lambda>s. format_sections str results (sections @ [s]))"

definition format_search_results :: "(json \<Rightarrow> string) \<Rightarrow> json list \<Rightarrow> py_exn + string" where
  "format_search_results str results =
     bind_exn (format_sections str results []) (\<lambda>summary_sections.
       Inr (join ''\<newline>\<newline>\<newline>'' summary_sections))"

subsection \<open>Contact extractor\<close>

text \<open>
  The removal of a markdown code block from a reply that is a string: the \<^verbatim>\<open>if\<close> and
  \<^verbatim>\<open>elif\<close> before \<^verbatim>\<open>json.loads\<close>.
\<close>

definition strip_code_block :: "string \<Rightarrow> py_exn + string" where
  "strip_code_block content =
     (if contains ''```json'' content then
        bind_exn (py_split content ''```json'') (\<lambda>parts.
        bind_exn (py_index parts 1) (\<lambda>p.
        bind_exn (py_split p ''```'') (\<lambda>inner.
        bind_exn (py_index inner 0) (\<lambda>c. Inr (strip c)))))
      else if contains ''```'' content then
        bind_exn (py_split content ''```'') (\<lambda>parts.
        bind_exn (py_index parts 1) (\<lambda>p.
        bind_exn (py_split p ''```'') (\<lambda>inner.
        bind_exn (py_index inner 0) (\<lambda>c. Inr (strip c)))))
      else Inr content)"

text \<open>
  The same lines for any value under \<^verbatim>\<open>content\<close>. On a list or a dict the test
  \<^verbatim>\<open>in\<close> is a membership test, \<^verbatim>\<open>split\<close> is missing (\<^verbatim>\<open>AttributeError\<close>) and
  \<^verbatim>\<open>json.loads\<close> refuses the value (\<^verbatim>\<open>TypeError\<close>).
\<close>

definition parse_content :: "env \<Rightarrow> json \<Rightarrow> py_exn + json" where
  "parse_content E content =
     (case content of
        JStr s \<Rightarrow> bind_exn (strip_code_block s) (json_loads E)
      | _ \<Rightarrow>
          bind_exn (py_in ''```json'' content) (\<lambda>tagged.
            if tagged then Inl AttributeError
            else bind_exn (py_in ''```'' content) (\<lambda>bare.
              if bare then Inl AttributeError else Inl TypeError)))"

text \<open>\<^verbatim>\<open>data['choices'][0]['message']['content']\<close>.\<close>

definition message_content :: "json \<Rightarrow> py_exn + json" where
  "message_content data =
     bind_exn (py_getitem data ''choices'') (\<lambda>choices.
     bind_exn (py_getitem0 choices) (\<lambda>choice.
     bind_exn (py_getitem choice ''message'') (\<lambda>message.
       py_getitem message ''content'')))"

text \<open>The statements under \<^verbatim>\<open>if response.status == 200\<close>, before any handler.\<close>

definition reply_contacts :: "env \<Rightarrow> json \<Rightarrow> py_exn + json list" where
  "reply_contacts E data =
     bind_exn (message_content data) (\<lambda>content.
     bind_exn (parse_content E content) (\<lambda>contacts.
       Inr (case contacts of JArr xs \<Rightarrow> xs | _ \<Rightarrow> [])))"

text \<open>
  \<^verbatim>\<open>extract_all_contacts\<close>: the inner handler turns \<^verbatim>\<open>JSONDecodeError\<close> into the empty
  list and the outer handler \<^verbatim>\<open>except Exception\<close> every other exception, also one
  raised by the call or by reading the body; a status other than 200 gives the empty
  list as well.
\<close>

definition extract_all_contacts :: "env \<Rightarrow> string \<Rightarrow> json list" where
  "extract_all_contacts E summary =
     (case openrouter_post E summary of
        Raised e \<Rightarrow> []
      | Response status body \<Rightarrow>
          (if status = 200 then
             (case body of
                Inl e \<Rightarrow> []
              | Inr data \<Rightarrow> (case reply_contacts E data of Inl e \<Rightarrow> [] | Inr contacts \<Rightarrow> contacts))
           else []))"

subsection \<open>Contact normaliser and the pipeline of one company\<close>

text \<open>The body of the loop that closes \<^verbatim>\<open>process_company\<close>, on one contact.\<close>

definition normalize_contact :: "string \<Rightarrow> string \<Rightarrow> json \<Rightarrow> py_exn + json" where
  "normalize_contact domain company_name contact =
     bind_exn (py_setitem contact ''domain'' (JStr domain)) (\<lambda>c1.
     bind_exn (py_setitem c1 ''company_name'' (JStr company_name)) (\<lambda>c2.
     bind_exn (py_get c2 ''linkedin_url'' (JStr [])) (\<lambda>url.
     bind_exn (py_setitem c2 ''linkedin_url'' (JStr (validate_linkedin_url url))) (\<lambda>c3.
     bind_exn (py_in ''generic_email'' c3) (\<lambda>present.
       if \<not> present then py_setitem c3 ''generic_email'' (JStr []) else Inr c3)))))"

text \<open>
  \<^verbatim>\<open>process_company\<close>. The five searches are gathered; \<open>search_serper\<close> never raises,
  so the results are those of the five calls in the order of the queries.
\<close>

definition process_company :: "env \<Rightarrow> string \<Rightarrow> string \<Rightarrow> py_exn + json list" where
  "process_company E domain company_name =
     bind_exn (generate_queries domain company_name) (\<lambda>queries.
       let results = map (search_serper E) queries in
       bind_exn (format_search_results (py_str E) results) (\<lambda>summary.
         map_exn (normalize_contact domain company_name) (extract_all_contacts E summary)))"

subsection \<open>Batch scheduler\<close>

record company =
  Domain :: string
  Company_Name :: string

definition batch_size :: nat where
  "batch_size = 14"

text \<open>
  \<^verbatim>\<open>asyncio.gather\<close> without \<^verbatim>\<open>return_exceptions\<close>, on the outcomes of its tasks in the
  order of the tasks. When no task raises it returns their results in that order.
  When some tasks raise, it raises one of their exceptions, the one that is raised
  first in time: \<open>pick\<close> chooses it among the exceptions of the tasks that raise.
\<close>

fun raised :: "(py_exn + 'a) list \<Rightarrow> py_exn list" where
  "raised [] = []"
| "raised (Inl e # outcomes) = e # raised outcomes"
| "raised (Inr v # outcomes) = raised outcomes"

fun returned :: "(py_exn + 'a) list \<Rightarrow> 'a list" where
  "returned [] = []"
| "returned (Inl e # outcomes) = returned outcomes"
| "returned (Inr v # outcomes) = v # returned outcomes"

definition gather :: "(py_exn list \<Rightarrow> py_exn) \<Rightarrow> (py_exn + 'a) list \<Rightarrow> py_exn + 'a list" where
  "gather pick outcomes =
     (if raised outcomes = [] then Inr (returned outcomes) else Inl (pick (raised outcomes)))"

text \<open>
  \<^verbatim>\<open>process_batch\<close>: one task per company of the batch, gathered; the results are then
  flattened in the order of the tasks.
\<close>

definition process_batch :: "env \<Rightarrow> company list \<Rightarrow> py_exn + json list" where
  "process_batch E companies =
     bind_exn
       (gather (first_raised E)
          (map (\<lambda>c. process_company E (Domain c) (Company_Name c)) companies))
       (\<lambda>results. Inr (concat results))"

text \<open>\<^verbatim>\<open>range(i, n, step)\<close> as a list; the step of \<^verbatim>\<open>run\<close> is the batch size.\<close>

function range_from :: "nat \<Rightarrow> nat \<Rightarrow> nat \<Rightarrow> nat list" where
  "range_from i n step = (if 0 < step \<and> i < n then i # range_from (i + step) n step else [])"
  by pat_completeness auto
termination
  by (relation "measure (\<lambda>(i, n, step). n - i)") auto

declare range_from.simps [simp del]

text \<open>The batches that the loop of \<^verbatim>\<open>run\<close> cuts: \<^verbatim>\<open>df.iloc[i:i + batch_size]\<close> for each \<open>i\<close>.\<close>

definition batches :: "'a list \<Rightarrow> 'a list list" where
  "batches df = map (\<lambda>i. take batch_size (drop i df)) (range_from 0 (length df) batch_size)"

text \<open>The loop of \<^verbatim>\<open>run\<close> over the batches, with \<^verbatim>\<open>all_results\<close> as accumulator.\<close>

fun run_batches :: "env \<Rightarrow> company list list \<Rightarrow> json list \<Rightarrow> py_exn + json list" where
  "run_batches E [] all_results = Inr all_results"
| "run_batches E (batch # rest) all_results =
     bind_exn (process_batch E batch) (\<lambda>results. run_batches E rest (all_results @ results))"

text \<open>\<^verbatim>\<open>run\<close>, from the data frame that was read to the list that is returned.\<close>

definition run :: "env \<Rightarrow> company list \<Rightarrow> py_exn + json list" where
  "run E df = run_batches E (batches df) []"

text \<open>
  The same loop with what it prints. Of the lines that a run prints, three kinds are
  kept: \<^verbatim>\<open>Processing batch {batch_num}/{total_batches}...\<close>, printed by \<^verbatim>\<open>run\<close> before
  it awaits a batch; \<^verbatim>\<open>Processing: {company_name} ({domain})\<close>, the first statement of
  \<^verbatim>\<open>process_company\<close>, which the task of a company executes when \<^verbatim>\<open>gather\<close> starts it,
  the tasks being started in their order; and
  \<^verbatim>\<open>Batch {batch_num} complete. Found {len(results)} contacts.\<close>, printed when
  \<^verbatim>\<open>process_batch\<close> has returned. The messages of the search client and of the extractor
  are left out.
\<close>

datatype event =
    Batch_start nat nat
  | Processing string string
  | Batch_complete nat nat

text \<open>The lines printed from the start of a batch until all its tasks are started.\<close>

definition batch_lines :: "nat \<Rightarrow> nat \<Rightarrow> company list \<Rightarrow> event list" where
  "batch_lines batch_num total_batches batch =
     Batch_start batch_num total_batches
       # map (\<lambda>c. Processing (Company_Name c) (Domain c)) batch"

text \<open>
  The loop of \<^verbatim>\<open>run\<close> over the values of \<open>i\<close> that remain, with the lines printed so
  far and \<^verbatim>\<open>all_results\<close> as accumulators.
\<close>

fun run_loop ::
  "env \<Rightarrow> company list \<Rightarrow> nat list \<Rightarrow> event list \<Rightarrow> json list
     \<Rightarrow> event list \<times> (py_exn + json list)" where
  "run_loop E df [] printed all_results = (printed, Inr all_results)"
| "run_loop E df (i # rest) printed all_results =
     (let batch = take batch_size (drop i df);
          batch_num = i div batch_size + 1;
          total_batches = (length df + batch_size - 1) div batch_size;
          printed1 = printed @ batch_lines batch_num total_batches batch
      in case process_batch E batch of
           Inl e \<Rightarrow> (printed1, Inl e)
         | Inr results \<Rightarrow>
             run_loop E df rest
               (printed1 @ [Batch_complete batch_num (length results)])
               (all_results @ results))"

text \<open>\<^verbatim>\<open>run\<close> with the lines it prints: the pair of the lines and of the outcome.\<close>

definition run_logged :: "env \<Rightarrow> company list \<Rightarrow> event list \<times> (py_exn + json list)" where
  "run_logged E df = run_loop E df (range_from 0 (length df) batch_size) [] []"

subsection \<open>The summary as the specification describes it\<close>

text \<open>
  The specification takes a search result to be a query with a sequence of hits, a hit
  having a title, a link and a snippet, any of which may be missing from a malformed
  response. A hit is modelled as the dict it arrives as. \<open>is_search_result r q hits\<close>
  says that the JSON value \<open>r\<close> is a search result with query \<open>q\<close> and hits \<open>hits\<close>:
  \<^verbatim>\<open>r["searchParameters"]["q"] == q\<close> and \<^verbatim>\<open>r["organic"] == hits\<close>.
\<close>

type_synonym hit = "(string \<times> json) list"

definition is_search_result :: "json \<Rightarrow> string \<Rightarrow> hit list \<Rightarrow> bool" where
  "is_search_result r q hits \<longleftrightarrow>
     bind_exn (py_getitem r ''searchParameters'') (\<lambda>p. py_getitem p ''q'') = Inr (JStr q)
     \<and> py_getitem r ''organic'' = Inr (JArr (map JObj hits))"

text \<open>A hit rendered as \<^verbatim>\<open>- <title>\n  <link>\n  <snippet>\<close>, or nothing when a field is missing.\<close>

definition spec_hit :: "(json \<Rightarrow> string) \<Rightarrow> hit \<Rightarrow> string option" where
  "spec_hit str h =
     (case (map_of h ''title'', map_of h ''link'', map_of h ''snippet'') of
        (Some t, Some l, Some s) \<Rightarrow>
          Some (''- '' @ fstr str t @ ''\<newline>  '' @ fstr str l @ ''\<newline>  '' @ fstr str s)
      | _ \<Rightarrow> None)"

text \<open>
  The block of one query: the header line, a blank line, and the first four hits, those
  with a missing field skipped, joined by \<^verbatim>\<open>\n---\n\<close>.
\<close>

definition spec_section :: "(json \<Rightarrow> string) \<Rightarrow> string \<Rightarrow> hit list \<Rightarrow> string" where
  "spec_section str q hits =
     ''**Search Query:** '' @ q @ ''\<newline>\<newline>''
     @ join ''\<newline>---\<newline>'' (List.map_filter (spec_hit str) (take 4 hits))"

text \<open>The summary: one block per search result in the order of the input, joined by three newlines.\<close>

definition spec_summary :: "(json \<Rightarrow> string) \<Rightarrow> (string \<times> hit list) list \<Rightarrow> string" where
  "spec_summary str results =
     join ''\<newline>\<newline>\<newline>'' (map (\<lambda>(q, hits). spec_section str q hits) results)"

subsection \<open>The text around the first occurrence of a separator\<close>

text \<open>
  \<open>text_before sep s\<close> is the part of \<open>s\<close> before the first occurrence of \<open>sep\<close>, all of
  \<open>s\<close> when there is none; \<open>text_after sep s\<close> is the part after that occurrence. They
  are used to say what the removal of a code block leaves.
\<close>

fun text_before :: "string \<Rightarrow> string \<Rightarrow> string" where
  "text_before sep [] = []"
| "text_before sep (c # cs) = (if prefix sep (c # cs) then [] else c # text_before sep cs)"

fun text_after :: "string \<Rightarrow> string \<Rightarrow> string" where
  "text_after sep [] = []"
| "text_after sep (c # cs) =
     (if prefix sep (c # cs) then drop (length sep) (c # cs) else text_after sep cs)"

subsection \<open>Counting the records of a person\<close>

text \<open>
  \<open>is_person fname lname c\<close>: the contact \<open>c\<close> is a record of the person with that
  first and last name. \<open>count_person\<close> counts such records in a list of contacts.
\<close>

definition is_person :: "string \<Rightarrow> string \<Rightarrow> json \<Rightarrow> bool" where
  "is_person fname lname c \<longleftrightarrow>
     py_getitem c ''first_name'' = Inr (JStr fname)
     \<and> py_getitem c ''last_name'' = Inr (JStr lname)"

definition count_person :: "string \<Rightarrow> string \<Rightarrow> json list \<Rightarrow> nat" where
  "count_person fname lname cs = length (filter (is_person fname lname) cs)"

subsection \<open>An example run\<close>

text \<open>
  A concrete environment for the examples below. \<open>loads_table\<close> stands for
  \<^verbatim>\<open>json.loads\<close> on finitely many texts: it returns the value that the table pairs
  with a text and fails on every other text; the tables used pair a JSON text with the
  value that \<^verbatim>\<open>json.loads\<close> returns for it. \<open>llm_reply\<close> is the body of an OpenRouter
  response with the given message content.
\<close>

definition loads_table :: "(string \<times> json) list \<Rightarrow> string \<Rightarrow> py_exn + json" where
  "loads_table tbl s = (case map_of tbl s of None \<Rightarrow> Inl JSONDecodeError | Some v \<Rightarrow> Inr v)"

definition llm_reply :: "json \<Rightarrow> json" where
  "llm_reply content =
     JObj [(''choices'',
       JArr [JObj [(''message'', JObj [(''role'', JStr ''assistant''), (''content'', content)])]])]"

definition acme_text :: string where
  \<open>acme_text = ''[{"first_name": "Clint", "last_name": "Dorman", "title": "VP Finance"}, {"first_name": "Clint", "last_name": "Dorman", "title": "VP of Finance and Operations"}]''\<close>

definition acme_value :: json where
  "acme_value = JArr
     [JObj [(''first_name'', JStr ''Clint''), (''last_name'', JStr ''Dorman''),
            (''title'', JStr ''VP Finance'')],
      JObj [(''first_name'', JStr ''Clint''), (''last_name'', JStr ''Dorman''),
            (''title'', JStr ''VP of Finance and Operations'')]]"

definition globex_inner :: string where
  \<open>globex_inner = ''[{"first_name": "Hank", "last_name": "Scorpio", "title": "CEO", "linkedin_url": " https://www.linkedin.com/in/hank-scorpio ", "domain": "example.org"}]''\<close>

definition globex_text :: string where
  "globex_text = ''```json\<newline>'' @ globex_inner @ ''\<newline>```''"

definition globex_value :: json where
  "globex_value = JArr
     [JObj [(''first_name'', JStr ''Hank''), (''last_name'', JStr ''Scorpio''),
            (''title'', JStr ''CEO''),
            (''linkedin_url'', JStr '' https://www.linkedin.com/in/hank-scorpio ''),
            (''domain'', JStr ''example.org'')]]"

definition initech_text :: string where
  \<open>initech_text = ''["No decision makers found"]''\<close>

definition initech_value :: json where
  "initech_value = JArr [JStr ''No decision makers found'']"

text \<open>
  Every search fails with a transport error; the language model answers with two
  records of one person for Acme, with one record in a tagged code block for Globex,
  and with an array that holds a sentence for Initech. Of the tasks of a batch that
  raise, the first in the order of the tasks raises first.
\<close>

definition example_env :: env where
  "example_env = \<lparr>
     serper_post = (\<lambda>query. Raised ClientError),
     openrouter_post = (\<lambda>summary.
        if contains ''acme.com'' summary then Response 200 (Inr (llm_reply (JStr acme_text)))
        else if contains ''globex.com'' summary
          then Response 200 (Inr (llm_reply (JStr globex_text)))
        else if contains ''initech.com'' summary
          then Response 200 (Inr (llm_reply (JStr initech_text)))
        else Response 500 (Inl JSONDecodeError)),
     json_loads = loads_table
        [(acme_text, acme_value), (globex_inner, globex_value), (initech_text, initech_value)],
     py_str = (\<lambda>v. ''?''),
     first_raised = hd \<rparr>"

definition acme :: company where
  "acme = \<lparr>Domain = ''acme.com'', Company_Name = ''Acme''\<rparr>"

definition globex :: company where
  "globex = \<lparr>Domain = ''globex.com'', Company_Name = ''Globex''\<rparr>"

definition initech :: company where
  "initech = \<lparr>Domain = ''initech.com'', Company_Name = ''Initech''\<rparr>"

text \<open>
  A search response with five hits, the second of which has no snippet, and with keys
  that the program does not read.
\<close>

definition example_hits :: "hit list" where
  "example_hits =
     [[(''title'', JStr ''About''), (''link'', JStr ''https://acme.com/about''),
       (''snippet'', JStr ''Jane Roe, CEO''), (''position'', JInt 1)],
      [(''title'', JStr ''Team''), (''link'', JStr ''https://acme.com/team'')],
      [(''title'', JStr ''News''), (''link'', JStr ''https://acme.com/news''),
       (''snippet'', JStr ''Acme names CFO'')],
      [(''title'', JStr ''Blog''), (''link'', JStr ''https://acme.com/blog''),
       (''snippet'', JStr ''Hello'')],
      [(''title'', JStr ''Jobs''), (''link'', JStr ''https://acme.com/jobs''),
       (''snippet'', JStr ''Hiring'')]]"

definition example_result :: json where
  "example_result =
     JObj [(''searchParameters'', JObj [(''q'', JStr ''acme CEO''), (''type'', JStr ''search'')]),
           (''organic'', JArr (map JObj example_hits)),
           (''credits'', JInt 1)]"

text \<open>The contacts that the run returns for Acme and for Globex.\<close>

definition acme_contacts :: "json list" where
  "acme_contacts =
     [JObj [(''first_name'', JStr ''Clint''), (''last_name'', JStr ''Dorman''),
            (''title'', JStr ''VP Finance''), (''domain'', JStr ''acme.com''),
            (''company_name'', JStr ''Acme''), (''linkedin_url'', JStr []),
            (''generic_email'', JStr [])],
      JObj [(''first_name'', JStr ''Clint''), (''last_name'', JStr ''Dorman''),
            (''title'', JStr ''VP of Finance and Operations''),
            (''domain'', JStr ''acme.com''), (''company_name'', JStr ''Acme''),
            (''linkedin_url'', JStr []), (''generic_email'', JStr [])]]"

definition globex_contacts :: "json list" where
  "globex_contacts =
     [JObj [(''first_name'', JStr ''Hank''), (''last_name'', JStr ''Scorpio''),
            (''title'', JStr ''CEO''),
            (''linkedin_url'', JStr ''https://www.linkedin.com/in/hank-scorpio''),
            (''domain'', JStr ''globex.com''), (''company_name'', JStr ''Globex''),
            (''generic_email'', JStr [])]]"

section \<open>Properties\<close>

subsection \<open>Exceptions and loops\<close>

lemma bind_exn_simps [simp]:
  "bind_exn (Inl e) f = Inl e"
  "bind_exn (Inr v) f = f v"
  by (simp_all add: bind_exn_def)

lemma map_exn_append:
  "map_exn f (xs @ ys) =
     bind_exn (map_exn f xs) (\<lambda>a. bind_exn (map_exn f ys) (\<lambda>b. Inr (a @ b)))"
  by (induction xs) (auto simp: bind_exn_def split: sum.splits)

lemma map_exn_Inr_iff:
  "map_exn f xs = Inr ys \<longleftrightarrow>
     length ys = length xs \<and> (\<forall>i<length xs. f (xs ! i) = Inr (ys ! i))"
proof (induction xs arbitrary: ys)
  case Nil
  then show ?case by auto
next
  case (Cons x xs)
  show ?case
  proof (cases ys)
    case Nil
    then show ?thesis by (auto split: sum.splits)
  next
    case (Cons y ys')
    then show ?thesis
      using Cons.IH [of ys'] by (auto simp: nth_Cons All_less_Suc2 split: sum.splits nat.splits)
  qed
qed


subsection \<open>Strings\<close>

lemma contains_sublist: "contains sub s \<longleftrightarrow> sublist sub s"
  by (induction s) (auto simp: sublist_Cons_right)

lemma contains_dropWhile:
  assumes "sub \<noteq> []" "\<not> P (hd sub)"
  shows "contains sub (dropWhile P s) = contains sub s"
  using assms
proof (induction s)
  case Nil
  then show ?case by simp
next
  case (Cons c cs)
  then show ?case by (cases sub) auto
qed

lemma contains_rev: "contains (rev sub) (rev s) = contains sub s"
  by (simp add: contains_sublist)

text \<open>Stripping cannot cut an occurrence of a text that begins and ends with a visible character.\<close>

lemma contains_strip:
  assumes "sub \<noteq> []" "\<not> py_isspace (hd sub)" "\<not> py_isspace (last sub)"
  shows "contains sub (strip s) = contains sub s"
proof -
  have "contains sub (strip s) =
      contains (rev sub) (dropWhile py_isspace (rev (dropWhile py_isspace s)))"
    unfolding strip_def by (metis contains_rev rev_rev_ident)
  also have "\<dots> = contains (rev sub) (rev (dropWhile py_isspace s))"
    using assms by (intro contains_dropWhile) (auto simp: hd_rev)
  also have "\<dots> = contains sub (dropWhile py_isspace s)"
    by (simp add: contains_rev)
  also have "\<dots> = contains sub s"
    using assms by (intro contains_dropWhile) auto
  finally show ?thesis .
qed

lemma dropWhile_fixed: "xs = [] \<or> \<not> P (hd xs) \<Longrightarrow> dropWhile P xs = xs"
  by (cases xs) auto

lemma last_dropWhile_ne: "dropWhile P xs \<noteq> [] \<Longrightarrow> last (dropWhile P xs) = last xs"
  by (induction xs) (auto split: if_splits)

lemma strip_Nil: "strip [] = []"
  by (simp add: strip_def)

lemma strip_ends:
  "strip s = [] \<or> (\<not> py_isspace (hd (strip s)) \<and> \<not> py_isspace (last (strip s)))"
proof (cases "strip s = []")
  case True
  then show ?thesis by simp
next
  case False
  define a where "a = dropWhile py_isspace s"
  define b where "b = dropWhile py_isspace (rev a)"
  have s: "strip s = rev b" by (simp add: strip_def a_def b_def)
  with False have b: "b \<noteq> []" by simp
  then have a: "a \<noteq> []" by (auto simp: b_def)
  have "\<not> py_isspace (hd b)" using b unfolding b_def by (metis hd_dropWhile)
  moreover have "last b = hd a"
    using b a unfolding b_def by (simp add: last_dropWhile_ne last_rev)
  moreover have "\<not> py_isspace (hd a)" using a unfolding a_def by (metis hd_dropWhile)
  ultimately show ?thesis using b by (simp add: s hd_rev last_rev)
qed

lemma strip_idem: "strip (strip s) = strip s"
proof (cases "strip s = []")
  case True
  with strip_Nil show ?thesis by simp
next
  case False
  with strip_ends [of s]
  have h: "\<not> py_isspace (hd (strip s))" and l: "\<not> py_isspace (last (strip s))"
    by auto
  have 1: "dropWhile py_isspace (strip s) = strip s"
    using h by (intro dropWhile_fixed) simp
  have 2: "dropWhile py_isspace (rev (strip s)) = rev (strip s)"
    using l False by (intro dropWhile_fixed) (simp add: hd_rev)
  show ?thesis
    unfolding strip_def [of "strip s"] 1 2 by simp
qed

subsection \<open>LinkedIn URL validation\<close>

lemma validate_str:
  "validate_linkedin_url (JStr s) =
     (if s \<noteq> [] \<and> contains ''linkedin.com/in/'' s \<and> (\<forall>d\<in>set disallowed. \<not> contains d s)
      then strip s else [])"
proof -
  have in': "contains ''linkedin.com/in/'' (strip s) = contains ''linkedin.com/in/'' s"
    by (rule contains_strip) (simp_all add: py_isspace_def)
  have dis: "contains d (strip s) = contains d s" if "d \<in> set disallowed" for d
    using that by (intro contains_strip) (auto simp: disallowed_def py_isspace_def)
  have "list_ex (\<lambda>d. contains d (strip s)) disallowed = (\<exists>d\<in>set disallowed. contains d s)"
    using dis by (auto simp: list_ex_iff)
  then show ?thesis
    by (auto simp: validate_linkedin_url_def Let_def in')
qed

lemma validate_not_str: "\<not> is_str url \<Longrightarrow> validate_linkedin_url url = []"
  by (simp add: validate_linkedin_url_def)

lemma contains_nonempty: "contains sub s \<Longrightarrow> sub \<noteq> [] \<Longrightarrow> s \<noteq> []"
  by (cases s) auto

lemma strip_nonempty_if_contains:
  assumes "contains ''linkedin.com/in/'' s"
  shows "strip s \<noteq> []"
proof -
  have "contains ''linkedin.com/in/'' (strip s)"
    using assms by (subst contains_strip) (simp_all add: py_isspace_def)
  then show ?thesis by (rule contains_nonempty) simp
qed

lemma validate_accepted_iff:
  "validate_linkedin_url url \<noteq> [] \<longleftrightarrow>
     (\<exists>s. url = JStr s \<and> s \<noteq> [] \<and> contains ''linkedin.com/in/'' s
          \<and> (\<forall>d\<in>set disallowed. \<not> contains d s))"
proof (cases url)
  case (JStr s)
  then show ?thesis
    using strip_nonempty_if_contains [of s] by (auto simp: validate_str)
qed (simp_all add: validate_not_str)

lemma validate_jane:
  "validate_linkedin_url (JStr ''https://www.linkedin.com/in/jane-doe-123'') =
     ''https://www.linkedin.com/in/jane-doe-123''"
  by (simp add: validate_linkedin_url_def disallowed_def strip_def py_isspace_def)

lemma validate_company:
  "validate_linkedin_url (JStr ''https://www.linkedin.com/company/acme'') = []"
  by (simp add: validate_linkedin_url_def disallowed_def strip_def py_isspace_def)

lemma validate_posts:
  "validate_linkedin_url (JStr ''https://www.linkedin.com/posts/xyz'') = []"
  by (simp add: validate_linkedin_url_def disallowed_def strip_def py_isspace_def)

text \<open>
  Claim C4. The validator returns a result that is not empty exactly when its argument is a
  string that is not empty, contains \<^verbatim>\<open>linkedin.com/in/\<close> and contains none of the
  company, posts, pub/dir, feed, jobs and school paths; every other argument, the empty
  string and a value that is not a string among them, gives the empty string. It
  accepts \<^verbatim>\<open>https://www.linkedin.com/in/jane-doe-123\<close> and rejects the company page
  and the post of the claim.
\<close>

theorem validate_linkedin_url_profile_only:
  "(validate_linkedin_url url \<noteq> [] \<longleftrightarrow>
      (\<exists>s. url = JStr s \<and> s \<noteq> [] \<and> contains ''linkedin.com/in/'' s
         \<and> \<not> contains ''linkedin.com/company/'' s \<and> \<not> contains ''linkedin.com/posts/'' s
         \<and> \<not> contains ''linkedin.com/pub/dir/'' s \<and> \<not> contains ''linkedin.com/feed/'' s
         \<and> \<not> contains ''linkedin.com/jobs/'' s \<and> \<not> contains ''linkedin.com/school/'' s))
   \<and> (\<not> is_str url \<longrightarrow> validate_linkedin_url url = [])
   \<and> validate_linkedin_url (JStr []) = []
   \<and> validate_linkedin_url (JStr ''https://www.linkedin.com/in/jane-doe-123'') =
       ''https://www.linkedin.com/in/jane-doe-123''
   \<and> validate_linkedin_url (JStr ''https://www.linkedin.com/company/acme'') = []
   \<and> validate_linkedin_url (JStr ''https://www.linkedin.com/posts/xyz'') = []"
proof -
  have "validate_linkedin_url url \<noteq> [] \<longleftrightarrow>
      (\<exists>s. url = JStr s \<and> s \<noteq> [] \<and> contains ''linkedin.com/in/'' s
         \<and> \<not> contains ''linkedin.com/company/'' s \<and> \<not> contains ''linkedin.com/posts/'' s
         \<and> \<not> contains ''linkedin.com/pub/dir/'' s \<and> \<not> contains ''linkedin.com/feed/'' s
         \<and> \<not> contains ''linkedin.com/jobs/'' s \<and> \<not> contains ''linkedin.com/school/'' s)"
    unfolding validate_accepted_iff by (simp add: disallowed_def)
  moreover have "validate_linkedin_url (JStr []) = []"
    by (simp add: validate_str)
  ultimately show ?thesis
    using validate_not_str validate_jane validate_company validate_posts by blast
qed

theorem validate_linkedin_url_profile_only_witness:
  "validate_linkedin_url (JStr ''https://www.linkedin.com/in/jane-doe-123'') \<noteq> []
   \<and> contains ''linkedin.com/in/'' ''https://www.linkedin.com/in/jane-doe-123''
   \<and> \<not> contains ''linkedin.com/company/'' ''https://www.linkedin.com/in/jane-doe-123''
   \<and> \<not> is_str (JInt 7) \<and> validate_linkedin_url (JInt 7) = []
   \<and> \<not> is_str JNull \<and> validate_linkedin_url JNull = []"
  using validate_linkedin_url_profile_only [of "JStr ''https://www.linkedin.com/in/jane-doe-123''"]
    validate_linkedin_url_profile_only [of "JInt 7"]
    validate_linkedin_url_profile_only [of JNull]
  by simp

subsection \<open>Contact normaliser\<close>

text \<open>On a dict the loop body never raises, and the resulting dict is the old one updated at four keys.\<close>

lemma normalize_contact_obj:
  "\<exists>kvs'. normalize_contact d n (JObj kvs) = Inr (JObj kvs')
     \<and> map_of kvs' = (map_of kvs)
         (''domain'' \<mapsto> JStr d, ''company_name'' \<mapsto> JStr n,
          ''linkedin_url'' \<mapsto>
             JStr (validate_linkedin_url
                (case map_of kvs ''linkedin_url'' of None \<Rightarrow> JStr [] | Some v \<Rightarrow> v)),
          ''generic_email'' \<mapsto>
             (case map_of kvs ''generic_email'' of None \<Rightarrow> JStr [] | Some v \<Rightarrow> v))"
  by (auto simp: normalize_contact_def update_conv' dom_map_of_conv_image_fst[symmetric]
        fun_eq_iff domIff split: option.splits)

lemma normalize_contact_not_obj:
  "(\<forall>kvs. c \<noteq> JObj kvs) \<Longrightarrow> normalize_contact d n c = Inl TypeError"
  by (cases c) (simp_all add: normalize_contact_def)

lemma validate_stripped: "strip (validate_linkedin_url url) = validate_linkedin_url url"
proof (cases url)
  case (JStr s)
  then show ?thesis by (simp add: validate_str strip_idem strip_Nil)
qed (simp_all add: validate_not_str strip_Nil)

subsection \<open>Query generation\<close>

lemma generate_queries_eq:
  "generate_queries d n = Inr
     [d @ '' '' @ n @ '' CEO -zoominfo -dnb'',
      d @ '' '' @ n @ '' Founder owner -zoominfo -dnb'',
      d @ '' '' @ n @ '' president chairman -zoominfo -dnb'',
      d @ '' '' @ n @ '' partner -zoominfo -dnb'',
      d @ '' '' @ n @ '' contact email'']"
  by (simp add: generate_queries_def search_queries_def py_format_def)

lemma contains_append_mid: "contains sub (ps @ sub @ ss)"
  by (simp add: contains_sublist)

lemma contains_append_front: "contains sub (sub @ ss)"
  using contains_append_mid [of sub "[]" ss] by simp

subsection \<open>Batch scheduler\<close>

lemma range_from_step:
  "0 < step \<Longrightarrow> i < n \<Longrightarrow> range_from i n step = i # range_from (i + step) n step"
  by (subst range_from.simps) simp

lemma range_from_stop: "\<not> (0 < step \<and> i < n) \<Longrightarrow> range_from i n step = []"
  by (subst range_from.simps) simp

lemma range_from_less: "x \<in> set (range_from i n step) \<Longrightarrow> x < n"
  by (induction i n step rule: range_from.induct)
     (subst (asm) (2) range_from.simps, auto split: if_splits)

lemma range_from_butlast: "x \<in> set (butlast (range_from i n step)) \<Longrightarrow> x + step < n"
proof (induction i n step rule: range_from.induct)
  case (1 i n step)
  show ?case
  proof (cases "0 < step \<and> i < n")
    case True
    then have eq: "range_from i n step = i # range_from (i + step) n step"
      by (simp add: range_from_step)
    show ?thesis
    proof (cases "range_from (i + step) n step = []")
      case True
      with eq "1.prems" show ?thesis by simp
    next
      case False
      then have "i + step < n" using range_from_stop [of step "i + step" n] by auto
      with False eq "1.prems" "1.IH" \<open>0 < step \<and> i < n\<close> show ?thesis by auto
    qed
  next
    case False
    with "1.prems" show ?thesis by (simp add: range_from_stop)
  qed
qed

lemma range_from_length:
  "0 < step \<Longrightarrow> length (range_from i n step) = (n - i + step - 1) div step"
proof (induction i n step rule: range_from.induct)
  case (1 i n step)
  show ?case
  proof (cases "i < n")
    case True
    with "1.prems" have eq: "range_from i n step = i # range_from (i + step) n step"
      by (simp add: range_from_step)
    have "(n - i + step - 1) div step = Suc ((n - (i + step) + step - 1) div step)"
    proof (cases "i + step \<le> n")
      case True
      define m where "m = n - (i + step) + step - 1"
      have "n - i + step - 1 = m + step" using True "1.prems" by (simp add: m_def)
      moreover have "(m + step) div step = Suc (m div step)" using "1.prems" by simp
      ultimately show ?thesis by (simp only: m_def)
    next
      case False
      with True "1.prems" have "n - i + step - 1 < 2 * step" "step \<le> n - i + step - 1"
        by auto
      then have "(n - i + step - 1) div step = 1"
        by (intro div_nat_eqI) auto
      moreover from False have "n - (i + step) + step - 1 < step" using "1.prems" by simp
      ultimately show ?thesis by simp
    qed
    with eq "1.IH" True "1.prems" show ?thesis by simp
  next
    case False
    then have "(n - i + step - 1) div step = 0" using "1.prems" by simp
    with False show ?thesis by (simp add: range_from_stop)
  qed
qed

lemma concat_batches_from:
  "0 < step \<Longrightarrow> n = length df \<Longrightarrow>
     concat (map (\<lambda>i. take step (drop i df)) (range_from i n step)) = drop i df"
proof (induction i n step rule: range_from.induct)
  case (1 i n step)
  show ?case
  proof (cases "i < n")
    case True
    with "1.prems" have eq: "range_from i n step = i # range_from (i + step) n step"
      by (simp add: range_from_step)
    have "take step (drop i df) @ drop (i + step) df = drop i df"
      by (metis add.commute append_take_drop_id drop_drop)
    with eq "1.IH" "1.prems" True show ?thesis by simp
  next
    case False
    with "1.prems" show ?thesis by (simp add: range_from_stop)
  qed
qed

lemma concat_batches: "concat (batches df) = df"
  using concat_batches_from [of batch_size "length df" df 0]
  by (simp add: batches_def batch_size_def)

lemma batches_sizes: "b \<in> set (batches df) \<Longrightarrow> 0 < length b \<and> length b \<le> batch_size"
  by (auto simp: batches_def batch_size_def dest: range_from_less)

lemma batches_full: "b \<in> set (butlast (batches df)) \<Longrightarrow> length b = batch_size"
  by (auto simp: batches_def map_butlast[symmetric] dest!: range_from_butlast)

lemma batches_count: "length (batches df) = (length df + batch_size - 1) div batch_size"
  by (simp add: batches_def range_from_length batch_size_def)

lemma batches_15: "length df = 15 \<Longrightarrow> map length (batches df) = [14, 1]"
  by (simp add: batches_def batch_size_def range_from.simps)

lemma raised_map_Nil_iff: "raised (map f xs) = [] \<longleftrightarrow> (\<exists>ys. map_exn f xs = Inr ys)"
  by (induction xs) (auto split: sum.splits)

lemma returned_map: "map_exn f xs = Inr ys \<Longrightarrow> returned (map f xs) = ys"
  by (induction xs arbitrary: ys) (auto split: sum.splits)

text \<open>A gather returns exactly when the tasks, run one after the other, all return.\<close>

lemma gather_Inr_iff: "gather pick (map f xs) = Inr ys \<longleftrightarrow> map_exn f xs = Inr ys"
  using raised_map_Nil_iff [of f xs] returned_map [of f xs]
  by (auto simp: gather_def)

lemma process_batch_Inr_iff:
  "process_batch E cs = Inr r \<longleftrightarrow>
     (\<exists>css. map_exn (\<lambda>c. process_company E (Domain c) (Company_Name c)) cs = Inr css
        \<and> r = concat css)"
proof -
  let ?f = "\<lambda>c. process_company E (Domain c) (Company_Name c)"
  have "map_exn ?f cs = Inr css \<longleftrightarrow> gather (first_raised E) (map ?f cs) = Inr css" for css
    by (simp add: gather_Inr_iff)
  then show ?thesis
    by (cases "gather (first_raised E) (map ?f cs)") (auto simp: process_batch_def)
qed

lemma process_batch_append:
  "process_batch E (xs @ ys) = Inr r \<longleftrightarrow>
     (\<exists>a b. process_batch E xs = Inr a \<and> process_batch E ys = Inr b \<and> r = a @ b)"
  by (auto simp: process_batch_Inr_iff map_exn_append bind_exn_def split: sum.splits)

lemma run_batches_concat:
  "run_batches E bs acc = Inr out \<longleftrightarrow>
     (\<exists>r. process_batch E (concat bs) = Inr r \<and> out = acc @ r)"
proof (induction bs arbitrary: acc)
  case Nil
  then show ?case by (auto simp: process_batch_def gather_def)
next
  case (Cons b bs)
  show ?case
  proof (cases "process_batch E b")
    case (Inl e)
    then show ?thesis by (simp add: process_batch_append)
  next
    case (Inr r)
    then show ?thesis by (auto simp: process_batch_append Cons.IH)
  qed
qed

text \<open>Cutting the input into batches does not change the result of a run that returns.\<close>

lemma run_process_batch: "run E df = Inr out \<longleftrightarrow> process_batch E df = Inr out"
  by (simp add: run_def run_batches_concat concat_batches)

lemma run_batches_first_failure:
  assumes "k < length bs" "process_batch E (bs ! k) = Inl e"
    and "\<forall>j<k. \<exists>r. process_batch E (bs ! j) = Inr r"
  shows "run_batches E bs acc = Inl e"
  using assms
proof (induction bs arbitrary: k acc)
  case Nil
  then show ?case by simp
next
  case (Cons b bs)
  show ?case
  proof (cases k)
    case 0
    with Cons.prems show ?thesis by simp
  next
    case (Suc k')
    with Cons.prems obtain r where r: "process_batch E b = Inr r" by fastforce
    have "run_batches E bs (acc @ r) = Inl e"
      using Cons.prems Suc by (intro Cons.IH [of k']) auto
    with r show ?thesis by simp
  qed
qed

lemma run_Inr_iff:
  "run E df = Inr out \<longleftrightarrow>
     (\<exists>css. length css = length df
        \<and> (\<forall>i<length df. process_company E (Domain (df ! i)) (Company_Name (df ! i)) = Inr (css ! i))
        \<and> out = concat css)"
proof -
  have "run E df = Inr out \<longleftrightarrow>
      (\<exists>css. map_exn (\<lambda>c. process_company E (Domain c) (Company_Name c)) df = Inr css
         \<and> out = concat css)"
    by (auto simp: run_process_batch process_batch_Inr_iff)
  then show ?thesis
    unfolding map_exn_Inr_iff by blast
qed

text \<open>
  The values of \<open>i\<close> in the loop of \<^verbatim>\<open>run\<close> are the multiples of the batch size, so
  batch \<open>k\<close> (counted from 0) is printed with the number \<open>k + 1\<close>.
\<close>

lemma range_from_nth:
  "k < length (range_from i n step) \<Longrightarrow> range_from i n step ! k = i + k * step"
proof (induction i n step arbitrary: k rule: range_from.induct)
  case (1 i n step)
  show ?case
  proof (cases "0 < step \<and> i < n")
    case True
    then have eq: "range_from i n step = i # range_from (i + step) n step"
      by (simp add: range_from_step)
    show ?thesis
    proof (cases k)
      case 0
      then show ?thesis by (simp add: eq)
    next
      case (Suc k')
      with "1.prems" eq have "k' < length (range_from (i + step) n step)" by simp
      with "1.IH" True have "range_from (i + step) n step ! k' = i + step + k' * step" by simp
      with Suc eq show ?thesis by simp
    qed
  next
    case False
    with "1.prems" show ?thesis by (simp add: range_from_stop)
  qed
qed

lemma range_from_map:
  "range_from 0 (length df) batch_size = map (\<lambda>k. k * batch_size) [0..<length (batches df)]"
  by (rule nth_equalityI) (simp_all add: batches_def range_from_nth)

lemma batches_nth:
  "k < length (batches df) \<Longrightarrow> batches df ! k = take batch_size (drop (k * batch_size) df)"
  by (simp add: batches_def range_from_nth)

lemma run_loop_success:
  assumes "\<forall>i\<in>set idxs. process_batch E (take batch_size (drop i df)) = Inr (r i)"
  shows "run_loop E df idxs printed acc =
     (printed @ concat (map (\<lambda>i.
         batch_lines (i div batch_size + 1) ((length df + batch_size - 1) div batch_size)
           (take batch_size (drop i df))
         @ [Batch_complete (i div batch_size + 1) (length (r i))]) idxs),
      Inr (acc @ concat (map r idxs)))"
  using assms by (induction idxs arbitrary: printed acc) (simp_all add: Let_def)

lemma run_loop_failure:
  assumes "\<forall>i\<in>set idxs. process_batch E (take batch_size (drop i df)) = Inr (r i)"
    and "process_batch E (take batch_size (drop i df)) = Inl e"
  shows "run_loop E df (idxs @ i # rest) printed acc =
     (printed @ concat (map (\<lambda>i.
         batch_lines (i div batch_size + 1) ((length df + batch_size - 1) div batch_size)
           (take batch_size (drop i df))
         @ [Batch_complete (i div batch_size + 1) (length (r i))]) idxs)
       @ batch_lines (i div batch_size + 1) ((length df + batch_size - 1) div batch_size)
           (take batch_size (drop i df)),
      Inl e)"
  using assms by (induction idxs arbitrary: printed acc) (simp_all add: Let_def)

lemma batch_size_nonzero: "batch_size \<noteq> 0"
  by (simp add: batch_size_def)

lemma run_loop_result: "snd (run_loop E df (map (\<lambda>i. i * batch_size) ks) printed acc)
   = run_batches E (map (\<lambda>k. take batch_size (drop (k * batch_size) df)) ks) acc"
  by (induction ks arbitrary: printed acc)
     (simp_all add: Let_def batch_size_nonzero split: sum.splits)

lemma batches_map:
  "batches df = map (\<lambda>k. take batch_size (drop (k * batch_size) df)) [0..<length (batches df)]"
  by (rule nth_equalityI) (simp_all add: batches_nth)

lemma run_logged_result: "snd (run_logged E df) = run E df"
  unfolding run_logged_def run_def range_from_map run_loop_result
  using batches_map [of df] by simp

lemma run_logged_success:
  assumes len: "length rs = length (batches df)"
    and ok: "\<forall>j<length (batches df). process_batch E (batches df ! j) = Inr (rs ! j)"
  shows "run_logged E df =
     (concat (map (\<lambda>j. batch_lines (j + 1) (length (batches df)) (batches df ! j)
                      @ [Batch_complete (j + 1) (length (rs ! j))]) [0..<length (batches df)]),
      Inr (concat rs))"
proof -
  let ?T = "length (batches df)"
  let ?idxs = "map (\<lambda>k. k * batch_size) [0..<?T]"
  have bs: "batch_size \<noteq> 0" by (simp add: batch_size_def)
  have "\<forall>i\<in>set ?idxs. process_batch E (take batch_size (drop i df)) = Inr (rs ! (i div batch_size))"
    using ok by (auto simp: bs batches_nth)
  from run_loop_success [OF this, of "[]" "[]"]
  have "run_logged E df =
     (concat (map (\<lambda>i.
         batch_lines (i div batch_size + 1) ((length df + batch_size - 1) div batch_size)
           (take batch_size (drop i df))
         @ [Batch_complete (i div batch_size + 1) (length (rs ! (i div batch_size)))]) ?idxs),
      Inr (concat (map (\<lambda>i. rs ! (i div batch_size)) ?idxs)))"
    by (simp add: run_logged_def range_from_map)
  moreover have "map (\<lambda>i. rs ! (i div batch_size)) ?idxs = rs"
    using len by (intro nth_equalityI) (simp_all add: bs)
  moreover have "map (\<lambda>i.
         batch_lines (i div batch_size + 1) ((length df + batch_size - 1) div batch_size)
           (take batch_size (drop i df))
         @ [Batch_complete (i div batch_size + 1) (length (rs ! (i div batch_size)))]) ?idxs
     = map (\<lambda>j. batch_lines (j + 1) ?T (batches df ! j)
                      @ [Batch_complete (j + 1) (length (rs ! j))]) [0..<?T]"
    by (simp add: bs batches_nth batches_count)
  ultimately show ?thesis by (simp only:)
qed

lemma run_logged_failure:
  assumes k: "k < length (batches df)" and len: "length rs = k"
    and ok: "\<forall>j<k. process_batch E (batches df ! j) = Inr (rs ! j)"
    and bad: "process_batch E (batches df ! k) = Inl e"
  shows "run_logged E df =
     (concat (map (\<lambda>j. batch_lines (j + 1) (length (batches df)) (batches df ! j)
                      @ [Batch_complete (j + 1) (length (rs ! j))]) [0..<k])
        @ batch_lines (k + 1) (length (batches df)) (batches df ! k),
      Inl e)"
proof -
  let ?T = "length (batches df)"
  let ?idxs = "map (\<lambda>k. k * batch_size) [0..<k]"
  have bs: "batch_size \<noteq> 0" by (simp add: batch_size_def)
  have split: "map (\<lambda>k. k * batch_size) [0..<?T]
      = ?idxs @ (k * batch_size) # map (\<lambda>k. k * batch_size) [Suc k..<?T]"
  proof -
    have "[0..<k + (?T - k)] = [0..<k] @ [k..<k + (?T - k)]"
      by (rule upt_add_eq_append) simp
    moreover have "[k..<?T] = k # [Suc k..<?T]"
      using k by (rule upt_conv_Cons)
    ultimately have "[0..<?T] = [0..<k] @ k # [Suc k..<?T]"
      using k by simp
    then show ?thesis by (metis list.simps(9) map_append)
  qed
  have 1: "\<forall>i\<in>set ?idxs. process_batch E (take batch_size (drop i df)) = Inr (rs ! (i div batch_size))"
    using ok k by (auto simp: bs batches_nth)
  have 2: "process_batch E (take batch_size (drop (k * batch_size) df)) = Inl e"
    using bad k by (simp add: batches_nth)
  have mapeq: "map (\<lambda>i.
         batch_lines (i div batch_size + 1) ?T
           (take batch_size (drop i df))
         @ [Batch_complete (i div batch_size + 1) (length (rs ! (i div batch_size)))]) ?idxs
     = map (\<lambda>j. batch_lines (j + 1) ?T (batches df ! j)
                      @ [Batch_complete (j + 1) (length (rs ! j))]) [0..<k]"
    using k by (simp add: bs batches_nth batches_count)
  have num: "k * batch_size div batch_size + 1 = k + 1"
    by (simp add: bs)
  have tot: "(length df + batch_size - 1) div batch_size = ?T"
    by (simp only: batches_count)
  have bk: "take batch_size (drop (k * batch_size) df) = batches df ! k"
    using k by (simp add: batches_nth)
  have "run_logged E df
      = run_loop E df (?idxs @ (k * batch_size) # map (\<lambda>k. k * batch_size) [Suc k..<?T]) [] []"
    by (simp only: run_logged_def range_from_map split)
  also note run_loop_failure [OF 1 2, of "map (\<lambda>k. k * batch_size) [Suc k..<?T]" "[]" "[]"]
  finally have "run_logged E df =
     ([] @ concat (map (\<lambda>i.
         batch_lines (i div batch_size + 1) ((length df + batch_size - 1) div batch_size)
           (take batch_size (drop i df))
         @ [Batch_complete (i div batch_size + 1) (length (rs ! (i div batch_size)))]) ?idxs)
       @ batch_lines (k * batch_size div batch_size + 1)
           ((length df + batch_size - 1) div batch_size)
           (take batch_size (drop (k * batch_size) df)),
      Inl e)" .
  then have "run_logged E df =
     ([] @ concat (map (\<lambda>i.
         batch_lines (i div batch_size + 1) ?T (take batch_size (drop i df))
         @ [Batch_complete (i div batch_size + 1) (length (rs ! (i div batch_size)))]) ?idxs)
       @ batch_lines (k + 1) ?T (batches df ! k),
      Inl e)"
    by (simp only: tot num bk)
  then show ?thesis
    by (simp only: mapeq append_Nil)
qed

lemma process_batch_slice:
  assumes len: "length css = length df"
    and ok: "\<forall>i<length df. process_company E (Domain (df ! i)) (Company_Name (df ! i)) = Inr (css ! i)"
  shows "process_batch E (take n (drop m df)) = Inr (concat (take n (drop m css)))"
proof -
  have "map_exn (\<lambda>c. process_company E (Domain c) (Company_Name c)) (take n (drop m df))
      = Inr (take n (drop m css))"
  proof -
    have "\<forall>i. i < length df - m \<and> i < n \<longrightarrow>
        process_company E (Domain (drop m df ! i)) (Company_Name (drop m df ! i))
          = Inr (drop m css ! i)"
    proof (intro allI impI)
      fix i
      assume "i < length df - m \<and> i < n"
      then have "i < length df - m" by (rule conjunct1)
      then have lt: "m + i < length df" and le: "m \<le> length df"
        by linarith+
      from le len have le': "m \<le> length css" by simp
      have "drop m df ! i = df ! (m + i)" "drop m css ! i = css ! (m + i)"
        using le le' by simp_all
      with ok lt
      show "process_company E (Domain (drop m df ! i)) (Company_Name (drop m df ! i))
          = Inr (drop m css ! i)"
        by simp
    qed
    with len show ?thesis
      unfolding map_exn_Inr_iff by simp
  qed
  then show ?thesis
    unfolding process_batch_Inr_iff by blast
qed

lemma concat_map_concat: "concat (map concat xss) = concat (concat xss)"
  by (induction xss) simp_all

lemma raised_replicate: "raised (replicate n (Inr v)) = []"
  by (induction n) simp_all

lemma returned_replicate: "returned (replicate n (Inr v)) = replicate n v"
  by (induction n) simp_all

text \<open>
  Claim C8. For every domain and company name the query generator returns, without
  raising, exactly five queries, the \<open>i\<close>-th being the \<open>i\<close>-th template with both
  fields replaced, and each query contains the domain and the company name as they
  were given.
\<close>

theorem generate_queries_five:
  "generate_queries domain company_name = Inr
     [domain @ '' '' @ company_name @ '' CEO -zoominfo -dnb'',
      domain @ '' '' @ company_name @ '' Founder owner -zoominfo -dnb'',
      domain @ '' '' @ company_name @ '' president chairman -zoominfo -dnb'',
      domain @ '' '' @ company_name @ '' partner -zoominfo -dnb'',
      domain @ '' '' @ company_name @ '' contact email'']
   \<and> (\<forall>qs. generate_queries domain company_name = Inr qs \<longrightarrow>
         length qs = 5 \<and> length search_queries = 5
         \<and> (\<forall>i<5. py_format (search_queries ! i)
                     [(''domain'', domain), (''company_name'', company_name)] = Inr (qs ! i))
         \<and> (\<forall>q\<in>set qs. contains domain q \<and> contains company_name q))"
proof -
  have len: "length search_queries = 5" by (simp add: search_queries_def)
  have mid: "contains company_name (domain @ '' '' @ company_name @ r)" for r
    using contains_append_mid [of company_name "domain @ '' ''" r] by simp
  have "length qs = 5
         \<and> (\<forall>i<5. py_format (search_queries ! i)
                     [(''domain'', domain), (''company_name'', company_name)] = Inr (qs ! i))
         \<and> (\<forall>q\<in>set qs. contains domain q \<and> contains company_name q)"
    if qs: "generate_queries domain company_name = Inr qs" for qs
  proof -
    from qs have "length qs = 5
         \<and> (\<forall>i<5. py_format (search_queries ! i)
                     [(''domain'', domain), (''company_name'', company_name)] = Inr (qs ! i))"
      unfolding generate_queries_def map_exn_Inr_iff len by simp
    moreover from qs have "\<forall>q\<in>set qs. contains domain q \<and> contains company_name q"
      unfolding generate_queries_eq using mid by (auto simp: contains_append_front)
    ultimately show ?thesis by blast
  qed
  with len generate_queries_eq show ?thesis by blast
qed

theorem generate_queries_five_witness:
  "generate_queries ''acme.com'' ''Acme Corp'' = Inr
     [''acme.com Acme Corp CEO -zoominfo -dnb'',
      ''acme.com Acme Corp Founder owner -zoominfo -dnb'',
      ''acme.com Acme Corp president chairman -zoominfo -dnb'',
      ''acme.com Acme Corp partner -zoominfo -dnb'',
      ''acme.com Acme Corp contact email'']
   \<and> contains ''acme.com'' ''acme.com Acme Corp partner -zoominfo -dnb''
   \<and> contains ''Acme Corp'' ''acme.com Acme Corp partner -zoominfo -dnb''"
  using generate_queries_five [of "''acme.com''" "''Acme Corp''"] by simp

subsection \<open>The example run\<close>

lemmas example_defs =
  process_company_def generate_queries_eq format_search_results_def format_section_def
  search_serper_def example_env_def empty_result_def result_separator_def fstr_def
  extract_all_contacts_def reply_contacts_def message_content_def llm_reply_def parse_content_def
  strip_code_block_def acme_text_def acme_value_def globex_text_def globex_inner_def
  globex_value_def initech_text_def initech_value_def loads_table_def
  normalize_contact_def validate_linkedin_url_def py_split_def py_index_def strip_def
  py_isspace_def disallowed_def

lemma example_acme: "process_company example_env ''acme.com'' ''Acme'' = Inr acme_contacts"
  by (simp add: example_defs acme_contacts_def)

lemma example_globex:
  "process_company example_env ''globex.com'' ''Globex'' = Inr globex_contacts"
  by (simp add: example_defs globex_contacts_def)

lemma example_initech:
  "process_company example_env ''initech.com'' ''Initech'' = Inl TypeError"
  by (simp add: example_defs)

lemma example_first_raised: "first_raised example_env = hd"
  by (simp add: example_env_def)

lemma example_run: "run example_env [acme, globex] = Inr (acme_contacts @ globex_contacts)"
  by (simp add: run_process_batch process_batch_def gather_def acme_def globex_def
        example_acme example_globex)

lemma example_run_failure: "run example_env [acme, initech, globex] = Inl TypeError"
  by (simp add: run_def batches_def batch_size_def range_from.simps process_batch_def
        gather_def acme_def globex_def initech_def example_acme example_initech example_globex
        example_first_raised)

lemma example_batch_acme:
  "process_batch example_env (replicate n acme) = Inr (concat (replicate n acme_contacts))"
  by (simp add: process_batch_def gather_def raised_replicate returned_replicate acme_def
        example_acme)

lemma example_batch_globex: "process_batch example_env [globex] = Inr globex_contacts"
  by (simp add: process_batch_def gather_def globex_def example_globex)

lemma example_batch_initech: "process_batch example_env [initech] = Inl TypeError"
  by (simp add: process_batch_def gather_def initech_def example_initech example_first_raised)

lemma example_batch_initech_first:
  "process_batch example_env (initech # replicate n acme) = Inl TypeError"
  by (simp add: process_batch_def gather_def initech_def acme_def example_initech example_acme
        raised_replicate example_first_raised)

lemma example_batches:
  "batches (replicate 14 c @ [d]) = [replicate 14 c, [d]]"
  "batches (d # replicate 14 c) = [d # replicate 13 c, [c]]"
  by (simp_all add: batches_def batch_size_def range_from.simps)

lemma length_acme_contacts: "length (concat (replicate 14 acme_contacts)) = 28"
  by (simp add: acme_contacts_def length_concat sum_list_replicate)

lemma length_globex_contacts: "length globex_contacts = 1"
  by (simp add: globex_contacts_def)

lemma process_company_unfold:
  "process_company E d n = Inr cs \<longleftrightarrow>
     (\<exists>qs summary. generate_queries d n = Inr qs
        \<and> format_search_results (py_str E) (map (search_serper E) qs) = Inr summary
        \<and> map_exn (normalize_contact d n) (extract_all_contacts E summary) = Inr cs)"
  by (auto simp: process_company_def bind_exn_def Let_def split: sum.splits)

text \<open>
  Claim C7. On every contact that is a dict the normaliser does not raise; afterwards
  \<^verbatim>\<open>domain\<close> and \<^verbatim>\<open>company_name\<close> hold the company's values whatever they held
  before, \<^verbatim>\<open>linkedin_url\<close> holds the validator's result on the old value (on the
  empty string when the key was absent), \<^verbatim>\<open>generic_email\<close> holds its old value or the
  empty string when the key was absent, and every other key, \<^verbatim>\<open>first_name\<close>,
  \<^verbatim>\<open>last_name\<close>, \<^verbatim>\<open>title\<close>, \<^verbatim>\<open>source_url\<close> and \<^verbatim>\<open>company_phone\<close> among them, is
  as before. Nothing changes a contact afterwards: \<^verbatim>\<open>process_company\<close> returns the
  normalised contacts, and \<^verbatim>\<open>run\<close> returns the concatenation of what
  \<^verbatim>\<open>process_company\<close> returned for each company.
\<close>

theorem normalize_contact_frame:
  "(\<exists>kvs'. normalize_contact domain company_name (JObj kvs) = Inr (JObj kvs')
      \<and> map_of kvs' ''domain'' = Some (JStr domain)
      \<and> map_of kvs' ''company_name'' = Some (JStr company_name)
      \<and> map_of kvs' ''linkedin_url'' =
          Some (JStr (validate_linkedin_url
             (case map_of kvs ''linkedin_url'' of None \<Rightarrow> JStr [] | Some v \<Rightarrow> v)))
      \<and> map_of kvs' ''generic_email'' =
          Some (case map_of kvs ''generic_email'' of None \<Rightarrow> JStr [] | Some v \<Rightarrow> v)
      \<and> map_of kvs' ''first_name'' = map_of kvs ''first_name''
      \<and> map_of kvs' ''last_name'' = map_of kvs ''last_name''
      \<and> map_of kvs' ''title'' = map_of kvs ''title''
      \<and> map_of kvs' ''source_url'' = map_of kvs ''source_url''
      \<and> map_of kvs' ''company_phone'' = map_of kvs ''company_phone''
      \<and> (\<forall>k. k \<notin> {''domain'', ''company_name'', ''linkedin_url'', ''generic_email''}
            \<longrightarrow> map_of kvs' k = map_of kvs k))
   \<and> (\<forall>cs. process_company E domain company_name = Inr cs \<longrightarrow>
         (\<exists>qs summary. generate_queries domain company_name = Inr qs
            \<and> format_search_results (py_str E) (map (search_serper E) qs) = Inr summary
            \<and> map_exn (normalize_contact domain company_name)
                 (extract_all_contacts E summary) = Inr cs))
   \<and> (\<forall>out. run E df = Inr out \<longrightarrow>
         (\<exists>css. length css = length df
            \<and> (\<forall>i<length df.
                  process_company E (Domain (df ! i)) (Company_Name (df ! i)) = Inr (css ! i))
            \<and> out = concat css))"
proof -
  obtain kvs' where n: "normalize_contact domain company_name (JObj kvs) = Inr (JObj kvs')"
    and m: "map_of kvs' = (map_of kvs)
         (''domain'' \<mapsto> JStr domain, ''company_name'' \<mapsto> JStr company_name,
          ''linkedin_url'' \<mapsto>
             JStr (validate_linkedin_url
                (case map_of kvs ''linkedin_url'' of None \<Rightarrow> JStr [] | Some v \<Rightarrow> v)),
          ''generic_email'' \<mapsto>
             (case map_of kvs ''generic_email'' of None \<Rightarrow> JStr [] | Some v \<Rightarrow> v))"
    using normalize_contact_obj by blast
  have "map_of kvs' ''domain'' = Some (JStr domain)"
    "map_of kvs' ''company_name'' = Some (JStr company_name)"
    "map_of kvs' ''linkedin_url'' =
          Some (JStr (validate_linkedin_url
             (case map_of kvs ''linkedin_url'' of None \<Rightarrow> JStr [] | Some v \<Rightarrow> v)))"
    "map_of kvs' ''generic_email'' =
          Some (case map_of kvs ''generic_email'' of None \<Rightarrow> JStr [] | Some v \<Rightarrow> v)"
    "map_of kvs' ''first_name'' = map_of kvs ''first_name''"
    "map_of kvs' ''last_name'' = map_of kvs ''last_name''"
    "map_of kvs' ''title'' = map_of kvs ''title''"
    "map_of kvs' ''source_url'' = map_of kvs ''source_url''"
    "map_of kvs' ''company_phone'' = map_of kvs ''company_phone''"
    "\<forall>k. k \<notin> {''domain'', ''company_name'', ''linkedin_url'', ''generic_email''}
            \<longrightarrow> map_of kvs' k = map_of kvs k"
    by (simp_all add: m)
  with n have first: "\<exists>kvs'. normalize_contact domain company_name (JObj kvs) = Inr (JObj kvs')
      \<and> map_of kvs' ''domain'' = Some (JStr domain)
      \<and> map_of kvs' ''company_name'' = Some (JStr company_name)
      \<and> map_of kvs' ''linkedin_url'' =
          Some (JStr (validate_linkedin_url
             (case map_of kvs ''linkedin_url'' of None \<Rightarrow> JStr [] | Some v \<Rightarrow> v)))
      \<and> map_of kvs' ''generic_email'' =
          Some (case map_of kvs ''generic_email'' of None \<Rightarrow> JStr [] | Some v \<Rightarrow> v)
      \<and> map_of kvs' ''first_name'' = map_of kvs ''first_name''
      \<and> map_of kvs' ''last_name'' = map_of kvs ''last_name''
      \<and> map_of kvs' ''title'' = map_of kvs ''title''
      \<and> map_of kvs' ''source_url'' = map_of kvs ''source_url''
      \<and> map_of kvs' ''company_phone'' = map_of kvs ''company_phone''
      \<and> (\<forall>k. k \<notin> {''domain'', ''company_name'', ''linkedin_url'', ''generic_email''}
            \<longrightarrow> map_of kvs' k = map_of kvs k)"
    by blast
  have second: "\<forall>cs. process_company E domain company_name = Inr cs \<longrightarrow>
         (\<exists>qs summary. generate_queries domain company_name = Inr qs
            \<and> format_search_results (py_str E) (map (search_serper E) qs) = Inr summary
            \<and> map_exn (normalize_contact domain company_name)
                 (extract_all_contacts E summary) = Inr cs)"
    by (simp only: process_company_unfold simp_thms)
  have third: "\<forall>out. run E df = Inr out \<longrightarrow>
         (\<exists>css. length css = length df
            \<and> (\<forall>i<length df.
                  process_company E (Domain (df ! i)) (Company_Name (df ! i)) = Inr (css ! i))
            \<and> out = concat css)"
    by (simp only: run_Inr_iff simp_thms)
  from first second third show ?thesis
    by (intro conjI)
qed


text \<open>The theorem at the record that the language model returns for Globex in the example run.\<close>

theorem normalize_contact_frame_witness:
  "normalize_contact ''globex.com'' ''Globex''
      (JObj [(''first_name'', JStr ''Hank''), (''last_name'', JStr ''Scorpio''),
             (''title'', JStr ''CEO''),
             (''linkedin_url'', JStr '' https://www.linkedin.com/in/hank-scorpio ''),
             (''domain'', JStr ''example.org'')])
     = Inr (globex_contacts ! 0)
   \<and> process_company example_env ''globex.com'' ''Globex'' = Inr globex_contacts
   \<and> (\<exists>qs summary. generate_queries ''globex.com'' ''Globex'' = Inr qs
         \<and> format_search_results (py_str example_env) (map (search_serper example_env) qs)
             = Inr summary
         \<and> map_exn (normalize_contact ''globex.com'' ''Globex'')
             (extract_all_contacts example_env summary) = Inr globex_contacts)
   \<and> run example_env [acme, globex] = Inr (acme_contacts @ globex_contacts)
   \<and> (\<exists>css. length css = length [acme, globex]
         \<and> acme_contacts @ globex_contacts = concat css)"
  using normalize_contact_frame [of "''globex.com''" "''Globex''"
      "[(''first_name'', JStr ''Hank''), (''last_name'', JStr ''Scorpio''),
        (''title'', JStr ''CEO''),
        (''linkedin_url'', JStr '' https://www.linkedin.com/in/hank-scorpio ''),
        (''domain'', JStr ''example.org'')]" example_env "[acme, globex]"]
    example_globex example_run
  by (simp add: normalize_contact_def validate_linkedin_url_def strip_def py_isspace_def
        disallowed_def globex_contacts_def) blast

text \<open>
  Claim C10. When the validator accepts, its result is the argument with leading and
  trailing whitespace removed: the result is its own \<open>strip\<close> and neither begins nor
  ends with whitespace. Hence the \<^verbatim>\<open>linkedin_url\<close> of every normalised contact is a
  trimmed string, and a valid URL with whitespace around it is accepted in trimmed form.
\<close>

theorem validate_linkedin_url_trimmed:
  "(validate_linkedin_url url \<noteq> [] \<longrightarrow>
      validate_linkedin_url url = strip (the_str url)
      \<and> strip (validate_linkedin_url url) = validate_linkedin_url url
      \<and> \<not> py_isspace (hd (validate_linkedin_url url))
      \<and> \<not> py_isspace (last (validate_linkedin_url url)))
   \<and> (\<forall>c'. normalize_contact domain company_name contact = Inr c' \<longrightarrow>
         (\<exists>r. py_getitem c' ''linkedin_url'' = Inr (JStr r) \<and> strip r = r))
   \<and> validate_linkedin_url (JStr ''  https://www.linkedin.com/in/jane-doe-123\<newline>'') =
        ''https://www.linkedin.com/in/jane-doe-123''"
proof -
  have a: "validate_linkedin_url url = strip (the_str url)
      \<and> strip (validate_linkedin_url url) = validate_linkedin_url url
      \<and> \<not> py_isspace (hd (validate_linkedin_url url))
      \<and> \<not> py_isspace (last (validate_linkedin_url url))"
    if ne: "validate_linkedin_url url \<noteq> []"
  proof -
    from ne obtain s where s: "url = JStr s" and v: "validate_linkedin_url url = strip s"
      using validate_str validate_not_str by (cases url) (auto split: if_splits)
    with ne strip_ends [of s] show ?thesis by (simp add: strip_idem)
  qed
  have b: "\<exists>r. py_getitem c' ''linkedin_url'' = Inr (JStr r) \<and> strip r = r"
    if n: "normalize_contact domain company_name contact = Inr c'" for c'
  proof -
    from n obtain kvs where c: "contact = JObj kvs"
      using normalize_contact_not_obj [of contact domain company_name] by auto
    from normalize_contact_obj [of domain company_name kvs] n c
    obtain kvs' where c': "c' = JObj kvs'"
      and m: "map_of kvs' ''linkedin_url'' = Some (JStr (validate_linkedin_url
                (case map_of kvs ''linkedin_url'' of None \<Rightarrow> JStr [] | Some v \<Rightarrow> v)))"
      by auto
    then show ?thesis by (simp add: validate_stripped)
  qed
  have c: "validate_linkedin_url (JStr ''  https://www.linkedin.com/in/jane-doe-123\<newline>'') =
        ''https://www.linkedin.com/in/jane-doe-123''"
    by (simp add: validate_linkedin_url_def disallowed_def strip_def py_isspace_def)
  from a b c show ?thesis by blast
qed

text \<open>The theorem at a URL with a space on each side.\<close>

theorem validate_linkedin_url_trimmed_witness:
  "validate_linkedin_url (JStr '' https://www.linkedin.com/in/hank-scorpio '') \<noteq> []
   \<and> validate_linkedin_url (JStr '' https://www.linkedin.com/in/hank-scorpio '') =
       ''https://www.linkedin.com/in/hank-scorpio''
   \<and> strip '' https://www.linkedin.com/in/hank-scorpio '' =
       ''https://www.linkedin.com/in/hank-scorpio''
   \<and> normalize_contact ''globex.com'' ''Globex''
        (JObj [(''linkedin_url'', JStr '' https://www.linkedin.com/in/hank-scorpio '')])
       = Inr (JObj [(''linkedin_url'', JStr ''https://www.linkedin.com/in/hank-scorpio''),
                    (''domain'', JStr ''globex.com''), (''company_name'', JStr ''Globex''),
                    (''generic_email'', JStr [])])
   \<and> py_getitem (JObj [(''linkedin_url'', JStr ''https://www.linkedin.com/in/hank-scorpio''),
                    (''domain'', JStr ''globex.com''), (''company_name'', JStr ''Globex''),
                    (''generic_email'', JStr [])]) ''linkedin_url''
        = Inr (JStr ''https://www.linkedin.com/in/hank-scorpio'')"
  using validate_linkedin_url_trimmed [of "JStr '' https://www.linkedin.com/in/hank-scorpio ''"
      "''globex.com''" "''Globex''"
      "JObj [(''linkedin_url'', JStr '' https://www.linkedin.com/in/hank-scorpio '')]"]
  by (simp add: normalize_contact_def validate_linkedin_url_def strip_def py_isspace_def
        disallowed_def)

text \<open>
  Claim C6. The loop of \<^verbatim>\<open>run\<close> cuts the input into consecutive batches of the batch
  size 14: their concatenation is the input, no batch is empty or longer than 14, every
  batch but the last has 14 companies, and there are \<open>\<lceil>n / 14\<rceil>\<close> of them; an input of 15
  companies gives two batches of 14 and 1. The batches are processed one after the
  other, which the lines that the run prints show. When every company's pipeline
  returns, the run returns the concatenation of the contacts of each company in the
  order of the input, and it has printed, for each batch in turn, the line that
  announces the batch with its number, the lines of the companies of that batch in
  their order, and the line that closes the batch with the number of contacts found in
  it; the same holds with the results of the batches in place of those of the
  companies. When a batch fails after the batches before it have returned, the run
  fails with the exception of that batch; the lines of the batches before it are
  complete, all companies of the failing batch were started, and no later batch was
  begun. The run fails with the failure of the first batch that fails, and a result
  that is returned is the concatenation of the contacts of each company in the order of
  the input. Within a batch the order in which the companies complete is not fixed;
  when several of them raise, the exception of the batch is the one that the
  environment lets come first.
\<close>

theorem run_batches_in_order:
  fixes df :: "company list"
  shows
  "batch_size = 14
   \<and> concat (batches df) = df
   \<and> (\<forall>b\<in>set (batches df). 0 < length b \<and> length b \<le> batch_size)
   \<and> (\<forall>b\<in>set (butlast (batches df)). length b = batch_size)
   \<and> length (batches df) = (length df + batch_size - 1) div batch_size
   \<and> (length df = 15 \<longrightarrow> map length (batches df) = [14, 1])
   \<and> (\<forall>k e. k < length (batches df) \<and> process_batch E (batches df ! k) = Inl e
          \<and> (\<forall>j<k. \<exists>r. process_batch E (batches df ! j) = Inr r)
        \<longrightarrow> run E df = Inl e)
   \<and> (\<forall>out. run E df = Inr out \<longrightarrow>
         (\<exists>css. length css = length df
            \<and> (\<forall>i<length df.
                  process_company E (Domain (df ! i)) (Company_Name (df ! i)) = Inr (css ! i))
            \<and> out = concat css))
   \<and> snd (run_logged E df) = run E df
   \<and> (\<forall>css. length css = length df
          \<and> (\<forall>i<length df.
                process_company E (Domain (df ! i)) (Company_Name (df ! i)) = Inr (css ! i))
        \<longrightarrow> run_logged E df =
             (concat (map (\<lambda>j. batch_lines (j + 1) (length (batches df)) (batches df ! j)
                              @ [Batch_complete (j + 1) (length (concat (batches css ! j)))])
                        [0..<length (batches df)]),
              Inr (concat css)))
   \<and> (\<forall>rs. length rs = length (batches df)
          \<and> (\<forall>j<length (batches df). process_batch E (batches df ! j) = Inr (rs ! j))
        \<longrightarrow> run_logged E df =
             (concat (map (\<lambda>j. batch_lines (j + 1) (length (batches df)) (batches df ! j)
                              @ [Batch_complete (j + 1) (length (rs ! j))])
                        [0..<length (batches df)]),
              Inr (concat rs)))
   \<and> (\<forall>k e rs. k < length (batches df) \<and> length rs = k
          \<and> (\<forall>j<k. process_batch E (batches df ! j) = Inr (rs ! j))
          \<and> process_batch E (batches df ! k) = Inl e
        \<longrightarrow> run_logged E df =
             (concat (map (\<lambda>j. batch_lines (j + 1) (length (batches df)) (batches df ! j)
                              @ [Batch_complete (j + 1) (length (rs ! j))])
                        [0..<k])
                @ batch_lines (k + 1) (length (batches df)) (batches df ! k),
              Inl e))"
proof -
  have 1: "\<forall>b\<in>set (batches df). 0 < length b \<and> length b \<le> batch_size"
    using batches_sizes by blast
  have 2: "\<forall>b\<in>set (butlast (batches df)). length b = batch_size"
    using batches_full by blast
  have 3: "length df = 15 \<longrightarrow> map length (batches df) = [14, 1]"
    using batches_15 by blast
  have 4: "\<forall>k e. k < length (batches df) \<and> process_batch E (batches df ! k) = Inl e
          \<and> (\<forall>j<k. \<exists>r. process_batch E (batches df ! j) = Inr r)
        \<longrightarrow> run E df = Inl e"
    unfolding run_def using run_batches_first_failure [of _ "batches df" E] by blast
  have 5: "\<forall>out. run E df = Inr out \<longrightarrow>
         (\<exists>css. length css = length df
            \<and> (\<forall>i<length df.
                  process_company E (Domain (df ! i)) (Company_Name (df ! i)) = Inr (css ! i))
            \<and> out = concat css)"
    by (simp only: run_Inr_iff simp_thms)
  have 6: "run_logged E df =
             (concat (map (\<lambda>j. batch_lines (j + 1) (length (batches df)) (batches df ! j)
                              @ [Batch_complete (j + 1) (length (concat (batches css ! j)))])
                        [0..<length (batches df)]),
              Inr (concat css))"
    if len: "length css = length df"
      and ok: "\<forall>i<length df.
                process_company E (Domain (df ! i)) (Company_Name (df ! i)) = Inr (css ! i)"
    for css
  proof -
    have T: "length (batches css) = length (batches df)"
      by (simp only: batches_count len)
    have "\<forall>j<length (batches df).
        process_batch E (batches df ! j) = Inr (map concat (batches css) ! j)"
      using process_batch_slice [OF len ok] T by (simp add: batches_nth)
    with run_logged_success [of "map concat (batches css)" df E] T
    have "run_logged E df =
       (concat (map (\<lambda>j. batch_lines (j + 1) (length (batches df)) (batches df ! j)
            @ [Batch_complete (j + 1) (length (map concat (batches css) ! j))])
              [0..<length (batches df)]),
        Inr (concat (map concat (batches css))))"
      by simp
    moreover have "concat (map concat (batches css)) = concat css"
      by (simp only: concat_map_concat concat_batches)
    moreover have "map (\<lambda>j. batch_lines (j + 1) (length (batches df)) (batches df ! j)
            @ [Batch_complete (j + 1) (length (map concat (batches css) ! j))])
              [0..<length (batches df)]
       = map (\<lambda>j. batch_lines (j + 1) (length (batches df)) (batches df ! j)
            @ [Batch_complete (j + 1) (length (concat (batches css ! j)))])
              [0..<length (batches df)]"
      using T by simp
    ultimately show ?thesis by (simp only:)
  qed
  then have 6: "\<forall>css. length css = length df
          \<and> (\<forall>i<length df.
                process_company E (Domain (df ! i)) (Company_Name (df ! i)) = Inr (css ! i))
        \<longrightarrow> run_logged E df =
             (concat (map (\<lambda>j. batch_lines (j + 1) (length (batches df)) (batches df ! j)
                              @ [Batch_complete (j + 1) (length (concat (batches css ! j)))])
                        [0..<length (batches df)]),
              Inr (concat css))"
    by blast
  have 7: "\<forall>rs. length rs = length (batches df)
          \<and> (\<forall>j<length (batches df). process_batch E (batches df ! j) = Inr (rs ! j))
        \<longrightarrow> run_logged E df =
             (concat (map (\<lambda>j. batch_lines (j + 1) (length (batches df)) (batches df ! j)
                              @ [Batch_complete (j + 1) (length (rs ! j))])
                        [0..<length (batches df)]),
              Inr (concat rs))"
    using run_logged_success [of _ df E] by blast
  have 8: "\<forall>k e rs. k < length (batches df) \<and> length rs = k
          \<and> (\<forall>j<k. process_batch E (batches df ! j) = Inr (rs ! j))
          \<and> process_batch E (batches df ! k) = Inl e
        \<longrightarrow> run_logged E df =
             (concat (map (\<lambda>j. batch_lines (j + 1) (length (batches df)) (batches df ! j)
                              @ [Batch_complete (j + 1) (length (rs ! j))])
                        [0..<k])
                @ batch_lines (k + 1) (length (batches df)) (batches df ! k),
              Inl e)"
    using run_logged_failure [of _ df _ E] by blast
  from batch_size_def concat_batches [of df] 1 2 batches_count [of df] 3 4 5
    run_logged_result [of E df] 6 7 8
  show ?thesis by (intro conjI)
qed

text \<open>
  The theorem at fifteen companies: fourteen times Acme followed by Globex, where both
  batches return; fourteen times Acme followed by Initech, where the second batch fails
  after the first has returned; and Initech followed by fourteen times Acme, where the
  first batch fails and the second is never begun.
\<close>

theorem run_batches_in_order_witness:
  "length (replicate 14 acme @ [globex]) = 15
   \<and> map length (batches (replicate 14 acme @ [globex])) = [14, 1]
   \<and> run_logged example_env (replicate 14 acme @ [globex]) =
       (Batch_start 1 2 # replicate 14 (Processing ''Acme'' ''acme.com'')
          @ [Batch_complete 1 28,
             Batch_start 2 2, Processing ''Globex'' ''globex.com'', Batch_complete 2 1],
        Inr (concat (replicate 14 acme_contacts) @ globex_contacts))
   \<and> run example_env (replicate 14 acme @ [globex])
       = Inr (concat (replicate 14 acme_contacts) @ globex_contacts)
   \<and> process_batch example_env (batches (replicate 14 acme @ [initech]) ! 0)
       = Inr (concat (replicate 14 acme_contacts))
   \<and> process_batch example_env (batches (replicate 14 acme @ [initech]) ! 1) = Inl TypeError
   \<and> run_logged example_env (replicate 14 acme @ [initech]) =
       (Batch_start 1 2 # replicate 14 (Processing ''Acme'' ''acme.com'')
          @ [Batch_complete 1 28, Batch_start 2 2, Processing ''Initech'' ''initech.com''],
        Inl TypeError)
   \<and> run example_env (replicate 14 acme @ [initech]) = Inl TypeError
   \<and> process_batch example_env (batches (initech # replicate 14 acme) ! 0) = Inl TypeError
   \<and> run_logged example_env (initech # replicate 14 acme) =
       (Batch_start 1 2 # Processing ''Initech'' ''initech.com''
          # replicate 13 (Processing ''Acme'' ''acme.com''),
        Inl TypeError)"
proof -
  let ?ok = "replicate 14 acme @ [globex]"
  let ?late = "replicate 14 acme @ [initech]"
  let ?early = "initech # replicate 14 acme"
  note thm_ok = run_batches_in_order [of ?ok example_env]
  note thm_late = run_batches_in_order [of ?late example_env]
  note thm_early = run_batches_in_order [of ?early example_env]
  have a: "map length (batches ?ok) = [14, 1]"
    using thm_ok [THEN conjunct2, THEN conjunct2, THEN conjunct2, THEN conjunct2, THEN conjunct2,
        THEN conjunct1]
    by simp
  have lines: "batch_lines k t (replicate n acme) = Batch_start k t # replicate n (Processing ''Acme'' ''acme.com'')"
    "batch_lines k t [globex] = [Batch_start k t, Processing ''Globex'' ''globex.com'']"
    "batch_lines k t [initech] = [Batch_start k t, Processing ''Initech'' ''initech.com'']"
    "batch_lines k t (initech # replicate n acme) = Batch_start k t # Processing ''Initech'' ''initech.com'' # replicate n (Processing ''Acme'' ''acme.com'')"
    for k t n
    by (simp_all add: batch_lines_def acme_def globex_def initech_def)
  have upt2: "[0..<2] = [0, 1]" "[0..<1] = [0]"
    by (simp_all add: upt_rec)
  have all2: "(\<forall>j<2. P j) \<longleftrightarrow> P 0 \<and> P (1::nat)" for P
    by (auto simp: less_2_cases_iff)
  have hyp_ok: "length [concat (replicate 14 acme_contacts), globex_contacts]
        = length (batches ?ok)
      \<and> (\<forall>j<length (batches ?ok). process_batch example_env (batches ?ok ! j)
            = Inr ([concat (replicate 14 acme_contacts), globex_contacts] ! j))"
    by (simp add: example_batches All_less_Suc example_batch_acme example_batch_globex)
  have b: "run_logged example_env ?ok =
       (Batch_start 1 2 # replicate 14 (Processing ''Acme'' ''acme.com'')
          @ [Batch_complete 1 28,
             Batch_start 2 2, Processing ''Globex'' ''globex.com'', Batch_complete 2 1],
        Inr (concat (replicate 14 acme_contacts) @ globex_contacts))"
    using thm_ok [THEN conjunct2, THEN conjunct2, THEN conjunct2, THEN conjunct2, THEN conjunct2,
        THEN conjunct2, THEN conjunct2, THEN conjunct2, THEN conjunct2, THEN conjunct2,
        THEN conjunct1, rule_format, OF hyp_ok]
    by (simp add: example_batches upt2 lines length_acme_contacts length_globex_contacts)
  have hyp_css: "length (replicate 14 acme_contacts @ [globex_contacts]) = length ?ok
      \<and> (\<forall>i<length ?ok.
            process_company example_env (Domain (?ok ! i)) (Company_Name (?ok ! i))
              = Inr ((replicate 14 acme_contacts @ [globex_contacts]) ! i))"
    by (auto simp: nth_append acme_def globex_def example_acme example_globex)
  have "snd (run_logged example_env ?ok)
      = Inr (concat (replicate 14 acme_contacts @ [globex_contacts]))"
    using thm_ok [THEN conjunct2, THEN conjunct2, THEN conjunct2, THEN conjunct2, THEN conjunct2,
        THEN conjunct2, THEN conjunct2, THEN conjunct2, THEN conjunct2, THEN conjunct1,
        rule_format, OF hyp_css]
    by (simp only: snd_conv)
  then have c: "run example_env ?ok = Inr (concat (replicate 14 acme_contacts) @ globex_contacts)"
    using thm_ok [THEN conjunct2, THEN conjunct2, THEN conjunct2, THEN conjunct2, THEN conjunct2,
        THEN conjunct2, THEN conjunct2, THEN conjunct2, THEN conjunct1]
    by simp
  have d: "process_batch example_env (batches ?late ! 0) = Inr (concat (replicate 14 acme_contacts))"
    "process_batch example_env (batches ?late ! 1) = Inl TypeError"
    by (simp_all add: example_batches example_batch_acme example_batch_initech)
  have hyp_late: "1 < length (batches ?late)
      \<and> length [concat (replicate 14 acme_contacts)] = 1
      \<and> (\<forall>j<1. process_batch example_env (batches ?late ! j)
            = Inr ([concat (replicate 14 acme_contacts)] ! j))
      \<and> process_batch example_env (batches ?late ! 1) = Inl TypeError"
    using d by (simp add: example_batches)
  have e: "run_logged example_env ?late =
       (Batch_start 1 2 # replicate 14 (Processing ''Acme'' ''acme.com'')
          @ [Batch_complete 1 28, Batch_start 2 2, Processing ''Initech'' ''initech.com''],
        Inl TypeError)"
    using thm_late [THEN conjunct2, THEN conjunct2, THEN conjunct2, THEN conjunct2, THEN conjunct2,
        THEN conjunct2, THEN conjunct2, THEN conjunct2, THEN conjunct2, THEN conjunct2,
        THEN conjunct2, rule_format, OF hyp_late]
    by (simp add: example_batches upt2 lines length_acme_contacts)
  have hyp_run: "1 < length (batches ?late)
      \<and> process_batch example_env (batches ?late ! 1) = Inl TypeError
      \<and> (\<forall>j<1. \<exists>r. process_batch example_env (batches ?late ! j) = Inr r)"
    using d by (simp add: example_batches)
  have f: "run example_env ?late = Inl TypeError"
    using thm_late [THEN conjunct2, THEN conjunct2, THEN conjunct2, THEN conjunct2, THEN conjunct2,
        THEN conjunct2, THEN conjunct1, rule_format, OF hyp_run] .
  have g: "process_batch example_env (batches ?early ! 0) = Inl TypeError"
    by (simp add: example_batches example_batch_initech_first)
  have hyp_early: "0 < length (batches ?early)
      \<and> length ([] :: json list list) = 0
      \<and> (\<forall>j<0. process_batch example_env (batches ?early ! j) = Inr ([] ! j))
      \<and> process_batch example_env (batches ?early ! 0) = Inl TypeError"
    using g by (simp add: example_batches)
  have h: "run_logged example_env ?early =
       (Batch_start 1 2 # Processing ''Initech'' ''initech.com''
          # replicate 13 (Processing ''Acme'' ''acme.com''),
        Inl TypeError)"
    using thm_early [THEN conjunct2, THEN conjunct2, THEN conjunct2, THEN conjunct2, THEN conjunct2,
        THEN conjunct2, THEN conjunct2, THEN conjunct2, THEN conjunct2, THEN conjunct2,
        THEN conjunct2, rule_format, OF hyp_early]
    by (simp add: example_batches lines)
  have len: "length ?ok = 15" by simp
  from len a b c d e f g h show ?thesis by (intro conjI)
qed

subsection \<open>Result formatter and search client\<close>

lemma has_hit_fields_obj:
  "has_hit_fields (JObj h) =
     Inr (map_of h ''title'' \<noteq> None \<and> map_of h ''link'' \<noteq> None \<and> map_of h ''snippet'' \<noteq> None)"
  by (auto simp: has_hit_fields_def map_of_eq_None_iff)

lemma render_hit_obj:
  "map_of h ''title'' = Some t \<Longrightarrow> map_of h ''link'' = Some l \<Longrightarrow> map_of h ''snippet'' = Some s
   \<Longrightarrow> render_hit str (JObj h) =
       Inr (''- '' @ fstr str t @ ''\<newline>  '' @ fstr str l @ ''\<newline>  '' @ fstr str s)"
  by (simp add: render_hit_def)

lemma format_items_obj:
  "format_items str (map JObj hs) acc = Inr (acc @ List.map_filter (spec_hit str) hs)"
proof (induction hs arbitrary: acc)
  case Nil
  then show ?case by (simp add: map_filter_simps)
next
  case (Cons h hs)
  show ?case
  proof (cases "spec_hit str h")
    case None
    then have "\<not> (map_of h ''title'' \<noteq> None \<and> map_of h ''link'' \<noteq> None
        \<and> map_of h ''snippet'' \<noteq> None)"
      by (auto simp: spec_hit_def split: option.splits)
    with None Cons.IH show ?thesis
      by (auto simp: has_hit_fields_obj map_filter_simps)
  next
    case (Some x)
    then obtain t l s where k: "map_of h ''title'' = Some t" "map_of h ''link'' = Some l"
        "map_of h ''snippet'' = Some s"
      and x: "x = ''- '' @ fstr str t @ ''\<newline>  '' @ fstr str l @ ''\<newline>  '' @ fstr str s"
      by (auto simp: spec_hit_def split: option.splits)
    with Some Cons.IH [of "acc @ [x]"] show ?thesis
      by (simp add: has_hit_fields_obj render_hit_obj map_filter_simps)
  qed
qed

lemma format_section_search_result:
  assumes "is_search_result r q hits"
  shows "format_section str r = Inr (spec_section str q hits)"
proof -
  from assms obtain kvs where r: "r = JObj kvs"
    by (cases r) (auto simp: is_search_result_def)
  from assms r obtain p where p: "map_of kvs ''searchParameters'' = Some p"
    and pq: "py_getitem p ''q'' = Inr (JStr q)"
    by (auto simp: is_search_result_def split: option.splits)
  from pq obtain ps where ps: "p = JObj ps" and q: "map_of ps ''q'' = Some (JStr q)"
    by (cases p) (auto split: option.splits)
  from assms r have o: "map_of kvs ''organic'' = Some (JArr (map JObj hits))"
    by (auto simp: is_search_result_def split: option.splits)
  show ?thesis
    by (simp add: format_section_def r p ps q o format_items_obj take_map
          spec_section_def fstr_def result_separator_def)
qed

lemma format_sections_map:
  "format_sections str rs acc =
     bind_exn (map_exn (format_section str) rs) (\<lambda>ss. Inr (acc @ ss))"
  by (induction rs arbitrary: acc) (auto simp: bind_exn_def split: sum.splits)

lemma format_search_results_map:
  "format_search_results str rs =
     bind_exn (map_exn (format_section str) rs) (\<lambda>ss. Inr (join ''\<newline>\<newline>\<newline>'' ss))"
  by (simp add: format_search_results_def format_sections_map bind_exn_def split: sum.splits)

lemma format_search_results_spec:
  assumes "list_all2 (\<lambda>r (q, hits). is_search_result r q hits) rs srs"
  shows "format_search_results str rs = Inr (spec_summary str srs)"
proof -
  from assms have "map_exn (format_section str) rs =
      Inr (map (\<lambda>(q, hits). spec_section str q hits) srs)"
  proof (induction rule: list_all2_induct)
    case Nil
    then show ?case by simp
  next
    case (Cons r rs sr srs)
    then show ?case by (auto simp: format_section_search_result)
  qed
  then show ?thesis by (simp add: format_search_results_map spec_summary_def)
qed

lemma map_filter_take_le: "length (List.map_filter f (take n xs)) \<le> n"
proof -
  have "length (List.map_filter f (take n xs)) \<le> length (take n xs)"
    unfolding map_filter_def length_map by (rule length_filter_le)
  also have "\<dots> \<le> n" by simp
  finally show ?thesis .
qed

lemma spec_hit_None_iff:
  "spec_hit str h = None \<longleftrightarrow>
     ''title'' \<notin> fst ` set h \<or> ''link'' \<notin> fst ` set h \<or> ''snippet'' \<notin> fst ` set h"
  by (cases "map_of h ''title''"; cases "map_of h ''link''"; cases "map_of h ''snippet''")
     (simp_all add: spec_hit_def map_of_eq_None_iff [symmetric])

lemma contains_join: "x \<in> set xs \<Longrightarrow> contains x (join sep xs)"
proof (induction sep xs rule: join.induct)
  case (1 sep)
  then show ?case by simp
next
  case (2 sep x')
  then show ?case using contains_append_front [of x "[]"] by simp
next
  case (3 sep x' y ys)
  show ?case
  proof (cases "x = x'")
    case True
    then show ?thesis by (simp add: contains_append_front)
  next
    case False
    with 3 have "contains x (join sep (y # ys))" by simp
    then obtain ps ss where "join sep (y # ys) = ps @ x @ ss"
      by (auto simp: contains_sublist sublist_def)
    then have "join sep (x' # y # ys) = (x' @ sep @ ps) @ x @ ss" by simp
    then show ?thesis by (metis contains_append_mid)
  qed
qed

text \<open>
  Claim C5. On a sequence of search results the formatter returns the summary of the
  specification: one block per result in the order of the input, the blocks joined by
  three newlines; a block is the header \<^verbatim>\<open>**Search Query:** <query>\<close>, a blank line,
  and the renderings of those of the first four hits that have a title, a link and a
  snippet, joined by \<^verbatim>\<open>\n---\n\<close>. So a block never shows more than four hits,
  and a hit with a missing field is left out without an error.
\<close>

theorem format_search_results_blocks:
  "(list_all2 (\<lambda>r (q, hits). is_search_result r q hits) results srs \<longrightarrow>
      format_search_results str results = Inr (spec_summary str srs)
      \<and> length (map (\<lambda>(q, hits). spec_section str q hits) srs) = length results)
   \<and> spec_summary str srs =
       join ''\<newline>\<newline>\<newline>'' (map (\<lambda>(q, hits). spec_section str q hits) srs)
   \<and> spec_section str q hits =
       ''**Search Query:** '' @ q @ ''\<newline>\<newline>''
       @ join ''\<newline>---\<newline>'' (List.map_filter (spec_hit str) (take 4 hits))
   \<and> length (List.map_filter (spec_hit str) (take 4 hits)) \<le> 4
   \<and> (spec_hit str h = None \<longleftrightarrow>
        ''title'' \<notin> fst ` set h \<or> ''link'' \<notin> fst ` set h \<or> ''snippet'' \<notin> fst ` set h)
   \<and> (\<forall>t l s. map_of h ''title'' = Some (JStr t) \<and> map_of h ''link'' = Some (JStr l)
          \<and> map_of h ''snippet'' = Some (JStr s)
        \<longrightarrow> spec_hit str h = Some (''- '' @ t @ ''\<newline>  '' @ l @ ''\<newline>  '' @ s))"
proof -
  have a: "list_all2 (\<lambda>r (q, hits). is_search_result r q hits) results srs \<longrightarrow>
      format_search_results str results = Inr (spec_summary str srs)
      \<and> length (map (\<lambda>(q, hits). spec_section str q hits) srs) = length results"
    using format_search_results_spec [of results srs str]
    by (auto dest: list_all2_lengthD)
  have b: "\<forall>t l s. map_of h ''title'' = Some (JStr t) \<and> map_of h ''link'' = Some (JStr l)
          \<and> map_of h ''snippet'' = Some (JStr s)
        \<longrightarrow> spec_hit str h = Some (''- '' @ t @ ''\<newline>  '' @ l @ ''\<newline>  '' @ s)"
    by (simp add: spec_hit_def fstr_def)
  from a spec_summary_def [of str srs] spec_section_def [of str q hits]
    map_filter_take_le [of "spec_hit str" 4 hits] spec_hit_None_iff [of str h] b
  show ?thesis by (intro conjI)
qed


text \<open>
  The theorem at a response of five hits, whose second hit has no snippet, followed by
  the empty result of a failed search: the first block shows hits one, three and four.
\<close>

theorem format_search_results_blocks_witness:
  "list_all2 (\<lambda>r (q, hits). is_search_result r q hits)
      [example_result, empty_result ''acme owner'']
      [(''acme CEO'', example_hits), (''acme owner'', [])]
   \<and> format_search_results (\<lambda>v. ''?'') [example_result, empty_result ''acme owner''] =
       Inr (''**Search Query:** acme CEO\<newline>\<newline>''
            @ ''- About\<newline>  https://acme.com/about\<newline>  Jane Roe, CEO''
            @ ''\<newline>---\<newline>''
            @ ''- News\<newline>  https://acme.com/news\<newline>  Acme names CFO''
            @ ''\<newline>---\<newline>''
            @ ''- Blog\<newline>  https://acme.com/blog\<newline>  Hello''
            @ ''\<newline>\<newline>\<newline>''
            @ ''**Search Query:** acme owner\<newline>\<newline>'')
   \<and> spec_hit (\<lambda>v. ''?'') (example_hits ! 1) = None
   \<and> ''snippet'' \<notin> fst ` set (example_hits ! 1)
   \<and> map_of (example_hits ! 3) ''title'' = Some (JStr ''Blog'')
   \<and> spec_hit (\<lambda>v. ''?'') (example_hits ! 3) =
       Some ''- Blog\<newline>  https://acme.com/blog\<newline>  Hello''"
proof -
  have w: "list_all2 (\<lambda>r (q, hits). is_search_result r q hits)
      [example_result, empty_result ''acme owner'']
      [(''acme CEO'', example_hits), (''acme owner'', [])]"
    by (simp add: is_search_result_def example_result_def empty_result_def)
  have s: "spec_summary (\<lambda>v. ''?'') [(''acme CEO'', example_hits), (''acme owner'', [])] =
       ''**Search Query:** acme CEO\<newline>\<newline>''
            @ ''- About\<newline>  https://acme.com/about\<newline>  Jane Roe, CEO''
            @ ''\<newline>---\<newline>''
            @ ''- News\<newline>  https://acme.com/news\<newline>  Acme names CFO''
            @ ''\<newline>---\<newline>''
            @ ''- Blog\<newline>  https://acme.com/blog\<newline>  Hello''
            @ ''\<newline>\<newline>\<newline>''
            @ ''**Search Query:** acme owner\<newline>\<newline>''"
    by (simp add: spec_summary_def spec_section_def spec_hit_def example_hits_def fstr_def
          map_filter_simps)
  have h: "''snippet'' \<notin> fst ` set (example_hits ! 1)"
    "map_of (example_hits ! 3) ''title'' = Some (JStr ''Blog'')"
    "map_of (example_hits ! 3) ''link'' = Some (JStr ''https://acme.com/blog'')"
    "map_of (example_hits ! 3) ''snippet'' = Some (JStr ''Hello'')"
    by (simp_all add: example_hits_def)
  from w s h
    format_search_results_blocks [of "[example_result, empty_result ''acme owner'']"
      "[(''acme CEO'', example_hits), (''acme owner'', [])]" "\<lambda>v. ''?''" "''acme CEO''"
      example_hits "example_hits ! 1"]
    format_search_results_blocks [of "[]" "[]" "\<lambda>v. ''?''" "[]" "[]" "example_hits ! 3"]
  show ?thesis by simp
qed

text \<open>
  Claim C2. \<^verbatim>\<open>search_serper\<close> returns a value in every case (its model is a total
  function with no exception in its type). When the call raises, when the status is
  not 200, and also when the body of a 200 response cannot be read, the value is the
  empty result, which has no hits and carries the query as it was given; its block in
  the summary is the header of the query followed by nothing, and the header is part of
  every summary that is built from a sequence holding this result.
\<close>

theorem search_serper_fail_soft:
  "((\<exists>e. serper_post E query = Raised e)
     \<or> (\<exists>status body. serper_post E query = Response status body
           \<and> (status \<noteq> 200 \<or> (\<exists>e. body = Inl e)))
    \<longrightarrow> search_serper E query = empty_result query)
   \<and> (\<forall>v. serper_post E query = Response 200 (Inr v) \<longrightarrow> search_serper E query = v)
   \<and> is_search_result (empty_result query) query []
   \<and> format_section str (empty_result query) = Inr (''**Search Query:** '' @ query @ ''\<newline>\<newline>'')
   \<and> (\<forall>before after out.
        format_search_results str (before @ [empty_result query] @ after) = Inr out
        \<longrightarrow> contains (''**Search Query:** '' @ query @ ''\<newline>\<newline>'') out)"
proof -
  have a: "(\<exists>e. serper_post E query = Raised e)
     \<or> (\<exists>status body. serper_post E query = Response status body
           \<and> (status \<noteq> 200 \<or> (\<exists>e. body = Inl e)))
    \<longrightarrow> search_serper E query = empty_result query"
    by (auto simp: search_serper_def)
  have b: "\<forall>v. serper_post E query = Response 200 (Inr v) \<longrightarrow> search_serper E query = v"
    by (simp add: search_serper_def)
  have c: "is_search_result (empty_result query) query []"
    by (simp add: is_search_result_def empty_result_def)
  have d: "format_section str (empty_result query) =
      Inr (''**Search Query:** '' @ query @ ''\<newline>\<newline>'')"
    using format_section_search_result [OF c, of str]
    by (simp add: spec_section_def map_filter_simps)
  have e: "contains (''**Search Query:** '' @ query @ ''\<newline>\<newline>'') out"
    if f: "format_search_results str (before @ [empty_result query] @ after) = Inr out"
    for before after out
  proof -
    from f obtain ss where ss:
        "map_exn (format_section str) (before @ [empty_result query] @ after) = Inr ss"
      and out: "out = join ''\<newline>\<newline>\<newline>'' ss"
      by (auto simp: format_search_results_map bind_exn_def split: sum.splits)
    from ss have "length ss = length (before @ [empty_result query] @ after)"
      and all: "\<forall>i<length (before @ [empty_result query] @ after).
          format_section str ((before @ [empty_result query] @ after) ! i) = Inr (ss ! i)"
      unfolding map_exn_Inr_iff by blast+
    have "length before < length (before @ [empty_result query] @ after)" by simp
    with all have "format_section str ((before @ [empty_result query] @ after) ! length before)
        = Inr (ss ! length before)"
      by blast
    then have "ss ! length before = ''**Search Query:** '' @ query @ ''\<newline>\<newline>''"
      using d by (simp add: nth_append)
    moreover have "length before < length ss"
      using \<open>length ss = length (before @ [empty_result query] @ after)\<close> by simp
    ultimately have "''**Search Query:** '' @ query @ ''\<newline>\<newline>'' \<in> set ss"
      by (metis nth_mem)
    then show ?thesis unfolding out by (rule contains_join)
  qed
  from a b c d e show ?thesis by blast
qed


text \<open>
  The theorem at a search that raises a transport error, at a 503 response and at a
  200 response, and at a summary of one answered and one failed search.
\<close>

theorem search_serper_fail_soft_witness:
  "serper_post example_env ''acme CEO'' = Raised ClientError
   \<and> search_serper example_env ''acme CEO'' = empty_result ''acme CEO''
   \<and> serper_post (example_env\<lparr>serper_post := \<lambda>q. Response 503 (Inr JNull)\<rparr>) ''acme CEO''
       = Response 503 (Inr JNull)
   \<and> search_serper (example_env\<lparr>serper_post := \<lambda>q. Response 503 (Inr JNull)\<rparr>) ''acme CEO''
       = empty_result ''acme CEO''
   \<and> serper_post (example_env\<lparr>serper_post := \<lambda>q. Response 200 (Inr example_result)\<rparr>)
         ''acme CEO'' = Response 200 (Inr example_result)
   \<and> search_serper (example_env\<lparr>serper_post := \<lambda>q. Response 200 (Inr example_result)\<rparr>)
         ''acme CEO'' = example_result
   \<and> format_search_results (\<lambda>v. ''?'')
        ([example_result] @ [empty_result ''acme owner''] @ []) =
       Inr (''**Search Query:** acme CEO\<newline>\<newline>''
            @ ''- About\<newline>  https://acme.com/about\<newline>  Jane Roe, CEO''
            @ ''\<newline>---\<newline>''
            @ ''- News\<newline>  https://acme.com/news\<newline>  Acme names CFO''
            @ ''\<newline>---\<newline>''
            @ ''- Blog\<newline>  https://acme.com/blog\<newline>  Hello''
            @ ''\<newline>\<newline>\<newline>''
            @ ''**Search Query:** acme owner\<newline>\<newline>'')
   \<and> contains ''**Search Query:** acme owner\<newline>\<newline>''
        (''**Search Query:** acme CEO\<newline>\<newline>''
            @ ''- About\<newline>  https://acme.com/about\<newline>  Jane Roe, CEO''
            @ ''\<newline>---\<newline>''
            @ ''- News\<newline>  https://acme.com/news\<newline>  Acme names CFO''
            @ ''\<newline>---\<newline>''
            @ ''- Blog\<newline>  https://acme.com/blog\<newline>  Hello''
            @ ''\<newline>\<newline>\<newline>''
            @ ''**Search Query:** acme owner\<newline>\<newline>'')"
proof -
  have p: "serper_post example_env ''acme CEO'' = Raised ClientError"
    by (simp add: example_env_def)
  have f: "format_search_results (\<lambda>v. ''?'')
        ([example_result] @ [empty_result ''acme owner''] @ []) =
       Inr (''**Search Query:** acme CEO\<newline>\<newline>''
            @ ''- About\<newline>  https://acme.com/about\<newline>  Jane Roe, CEO''
            @ ''\<newline>---\<newline>''
            @ ''- News\<newline>  https://acme.com/news\<newline>  Acme names CFO''
            @ ''\<newline>---\<newline>''
            @ ''- Blog\<newline>  https://acme.com/blog\<newline>  Hello''
            @ ''\<newline>\<newline>\<newline>''
            @ ''**Search Query:** acme owner\<newline>\<newline>'')"
    by (simp add: format_search_results_def format_section_def example_result_def
          example_hits_def empty_result_def has_hit_fields_def render_hit_def fstr_def
          result_separator_def)
  have p2: "serper_post (example_env\<lparr>serper_post := \<lambda>q. Response 503 (Inr JNull)\<rparr>) ''acme CEO''
       = Response 503 (Inr JNull)"
    by simp
  have p3: "serper_post (example_env\<lparr>serper_post := \<lambda>q. Response 200 (Inr example_result)\<rparr>)
         ''acme CEO'' = Response 200 (Inr example_result)"
    by simp
  have n: "(503::int) \<noteq> 200" by simp
  have 1: "search_serper example_env ''acme CEO'' = empty_result ''acme CEO''"
    using p search_serper_fail_soft [of example_env "''acme CEO''" "\<lambda>v. ''?''"] by blast
  have 2: "search_serper (example_env\<lparr>serper_post := \<lambda>q. Response 503 (Inr JNull)\<rparr>)
      ''acme CEO'' = empty_result ''acme CEO''"
    using p2 n
      search_serper_fail_soft [of "example_env\<lparr>serper_post := \<lambda>q. Response 503 (Inr JNull)\<rparr>"
        "''acme CEO''" "\<lambda>v. ''?''"]
    by blast
  have 3: "search_serper (example_env\<lparr>serper_post := \<lambda>q. Response 200 (Inr example_result)\<rparr>)
         ''acme CEO'' = example_result"
    using p3
      search_serper_fail_soft [of
        "example_env\<lparr>serper_post := \<lambda>q. Response 200 (Inr example_result)\<rparr>"
        "''acme CEO''" "\<lambda>v. ''?''"]
    by blast
  have 4: "contains (''**Search Query:** '' @ ''acme owner'' @ ''\<newline>\<newline>'')
        (''**Search Query:** acme CEO\<newline>\<newline>''
            @ ''- About\<newline>  https://acme.com/about\<newline>  Jane Roe, CEO''
            @ ''\<newline>---\<newline>''
            @ ''- News\<newline>  https://acme.com/news\<newline>  Acme names CFO''
            @ ''\<newline>---\<newline>''
            @ ''- Blog\<newline>  https://acme.com/blog\<newline>  Hello''
            @ ''\<newline>\<newline>\<newline>''
            @ ''**Search Query:** acme owner\<newline>\<newline>'')"
    using f search_serper_fail_soft [of example_env "''acme owner''" "\<lambda>v. ''?''"] by blast
  from 4 have 5: "contains ''**Search Query:** acme owner\<newline>\<newline>''
        (''**Search Query:** acme CEO\<newline>\<newline>''
            @ ''- About\<newline>  https://acme.com/about\<newline>  Jane Roe, CEO''
            @ ''\<newline>---\<newline>''
            @ ''- News\<newline>  https://acme.com/news\<newline>  Acme names CFO''
            @ ''\<newline>---\<newline>''
            @ ''- Blog\<newline>  https://acme.com/blog\<newline>  Hello''
            @ ''\<newline>\<newline>\<newline>''
            @ ''**Search Query:** acme owner\<newline>\<newline>'')"
    by (simp only: append.simps)
  from p 1 p2 2 p3 3 f 5 show ?thesis by (intro conjI)
qed

subsection \<open>Removal of the code block\<close>

lemma split_from_nonempty: "split_from sep cur s \<noteq> []"
  by (induction s arbitrary: cur) auto

lemma split_from_no_sep: "\<not> contains sep s \<Longrightarrow> split_from sep cur s = [cur @ s]"
  by (induction s arbitrary: cur) auto

lemma split_from_length:
  "contains sep s \<Longrightarrow> sep \<noteq> [] \<Longrightarrow> 2 \<le> length (split_from sep cur s)"
proof (induction s arbitrary: cur)
  case Nil
  then show ?case by simp
next
  case (Cons c cs)
  show ?case
  proof (cases "prefix sep (c # cs)")
    case True
    have "1 \<le> length (split_from sep [] (drop (length sep - 1) cs))"
      using split_from_nonempty [of sep "[]" "drop (length sep - 1) cs"]
      by (cases "split_from sep [] (drop (length sep - 1) cs)") auto
    with True show ?thesis by simp
  next
    case False
    with Cons show ?thesis by simp
  qed
qed

lemma contains_length: "contains sub s \<Longrightarrow> length sub \<le> length s"
  by (induction s) (auto dest: prefix_length_le)

lemma not_contains_before:
  assumes "sep \<noteq> []" "hd sep \<notin> set pre"
  shows "\<not> contains sep (pre @ butlast sep)"
  using assms
proof (induction pre)
  case Nil
  have "length (butlast sep) < length sep" using \<open>sep \<noteq> []\<close> by simp
  then show ?case using contains_length [of sep "butlast sep"] by auto
next
  case (Cons c pre)
  then have "\<not> prefix sep (c # pre @ butlast sep)"
    by (cases sep) auto
  with Cons show ?case by simp
qed

lemma split_from_first:
  assumes "sep \<noteq> []" "\<not> contains sep (pre @ butlast sep)"
  shows "split_from sep cur (pre @ sep @ rest) = (cur @ pre) # split_from sep [] rest"
  using assms
proof (induction pre arbitrary: cur)
  case Nil
  then obtain c cs where sep: "sep = c # cs" by (cases sep) auto
  then show ?case by simp
next
  case (Cons c pre)
  from \<open>sep \<noteq> []\<close> obtain bs l where sep: "sep = bs @ [l]"
    by (cases sep rule: rev_cases) auto
  have np: "\<not> prefix sep (c # pre @ sep @ rest)"
  proof
    assume "prefix sep (c # pre @ sep @ rest)"
    then have "prefix (bs @ [l]) ((c # pre @ bs) @ (l # rest))" by (simp add: sep)
    then have "prefix (bs @ [l]) (c # pre @ bs)"
      unfolding prefix_append [of _ "c # pre @ bs"]
    proof
      assume "prefix (bs @ [l]) (c # pre @ bs)"
      then show ?thesis .
    next
      assume "\<exists>us. bs @ [l] = (c # pre @ bs) @ us \<and> prefix us (l # rest)"
      then obtain us where e: "bs @ [l] = (c # pre @ bs) @ us" by blast
      then have "length (bs @ [l]) = length ((c # pre @ bs) @ us)" by (rule arg_cong)
      then have "us = []" by simp
      with e show ?thesis by simp
    qed
    with Cons.prems show False by (simp add: sep)
  qed
  from Cons.prems have "\<not> contains sep (pre @ butlast sep)" by simp
  with Cons.IH [of "cur @ [c]"] Cons.prems np show ?case by simp
qed


lemma split_from_hd_first:
  assumes "sep \<noteq> []" "hd sep \<notin> set pre"
  shows "split_from sep [] (pre @ sep @ rest) = pre # split_from sep [] rest"
  using split_from_first [of sep pre "[]" rest] not_contains_before [OF assms] assms by simp

lemma not_contains_no_hd: "sep \<noteq> [] \<Longrightarrow> hd sep \<notin> set s \<Longrightarrow> \<not> contains sep s"
  by (induction s) (auto simp: prefix_Cons)

lemma py_split_ok: "sep \<noteq> [] \<Longrightarrow> py_split s sep = Inr (split_from sep [] s)"
  by (simp add: py_split_def)

lemma py_index_1:
  "contains sep s \<Longrightarrow> sep \<noteq> [] \<Longrightarrow>
     py_index (split_from sep [] s) 1 = Inr (split_from sep [] s ! 1)"
  using split_from_length [of sep s "[]"] by (simp add: py_index_def)

lemma py_index_0: "py_index (split_from sep [] p) 0 = Inr (split_from sep [] p ! 0)"
  using split_from_nonempty [of sep "[]" p] by (simp add: py_index_def)

text \<open>The indexing never fails: on every string the removal of the code block returns.\<close>

lemma strip_code_block_eq:
  "strip_code_block s = Inr
     (if contains ''```json'' s
        then strip (split_from ''```'' [] (split_from ''```json'' [] s ! 1) ! 0)
      else if contains ''```'' s
        then strip (split_from ''```'' [] (split_from ''```'' [] s ! 1) ! 0)
      else s)"
proof -
  have j: "''```json'' \<noteq> []" and f: "''```'' \<noteq> []" by simp_all
  show ?thesis
  proof (cases "contains ''```json'' s")
    case True
    then show ?thesis
      by (simp only: strip_code_block_def if_True py_split_ok [OF j] py_split_ok [OF f]
            py_index_1 [OF True j] py_index_0 bind_exn_simps)
  next
    case False
    show ?thesis
    proof (cases "contains ''```'' s")
      case True
      with False show ?thesis
        by (simp only: strip_code_block_def if_True if_False py_split_ok [OF f]
              py_index_1 [OF True f] py_index_0 bind_exn_simps)
    next
      case no: False
      with False show ?thesis
        by (simp only: strip_code_block_def if_False)
    qed
  qed
qed

lemma strip_code_block_plain: "\<not> contains ''```'' s \<Longrightarrow> strip_code_block s = Inr s"
proof -
  assume n: "\<not> contains ''```'' s"
  have "\<not> contains ''```json'' s"
  proof
    assume "contains ''```json'' s"
    then obtain ps ss where "s = ps @ ''```json'' @ ss"
      by (auto simp: contains_sublist sublist_def)
    then have "s = ps @ ''```'' @ (''json'' @ ss)" by simp
    then have "contains ''```'' s" by (simp only: contains_append_mid)
    with n show False ..
  qed
  with n show ?thesis by (simp only: strip_code_block_eq if_False)
qed

lemma strip_code_block_tagged:
  assumes s: "s = pre @ ''```json'' @ body @ ''```'' @ post"
    and pre: "CHR 0x60 \<notin> set pre" and body: "CHR 0x60 \<notin> set body"
    and once: "\<not> contains ''```json'' (body @ ''```'' @ post)"
  shows "strip_code_block s = Inr (strip body)"
proof -
  define rest where "rest = body @ ''```'' @ post"
  have s': "s = pre @ ''```json'' @ rest" by (simp add: s rest_def)
  have c: "contains ''```json'' s" unfolding s' by (rule contains_append_mid)
  have 1: "split_from ''```json'' [] s = pre # split_from ''```json'' [] rest"
    unfolding s' using pre by (intro split_from_hd_first) simp_all
  have 2: "split_from ''```json'' [] rest = [rest]"
    using once split_from_no_sep [of "''```json''" rest "[]"] by (simp add: rest_def)
  have 3: "split_from ''```'' [] rest = body # split_from ''```'' [] post"
    unfolding rest_def using body by (intro split_from_hd_first) simp_all
  have "split_from ''```json'' [] s ! 1 = rest" by (simp only: 1 2 One_nat_def nth_Cons_Suc nth_Cons_0)
  moreover have "split_from ''```'' [] rest ! 0 = body" by (simp only: 3 nth_Cons_0)
  ultimately show ?thesis
    using c by (simp only: strip_code_block_eq if_True)
qed

lemma strip_code_block_bare:
  assumes n: "\<not> contains ''```json'' s"
    and s: "s = pre @ ''```'' @ body @ ''```'' @ post"
    and pre: "CHR 0x60 \<notin> set pre" and body: "CHR 0x60 \<notin> set body"
  shows "strip_code_block s = Inr (strip body)"
proof -
  define rest where "rest = body @ ''```'' @ post"
  have s': "s = pre @ ''```'' @ rest" by (simp add: s rest_def)
  have c: "contains ''```'' s" unfolding s' by (rule contains_append_mid)
  have 1: "split_from ''```'' [] s = pre # split_from ''```'' [] rest"
    unfolding s' using pre by (intro split_from_hd_first) simp_all
  have 2: "split_from ''```'' [] rest = body # split_from ''```'' [] post"
    unfolding rest_def using body by (intro split_from_hd_first) simp_all
  have "\<not> contains ''```'' body"
    using body by (intro not_contains_no_hd) simp_all
  then have 3: "split_from ''```'' [] body = [body]"
    using split_from_no_sep [of "''```''" body "[]"] by simp
  have "split_from ''```'' [] s ! 1 = body"
    by (simp only: 1 2 One_nat_def nth_Cons_Suc nth_Cons_0)
  moreover have "split_from ''```'' [] body ! 0 = body" by (simp only: 3 nth_Cons_0)
  ultimately show ?thesis
    using c n by (simp only: strip_code_block_eq if_True if_False)
qed

lemma strip_code_block_example: "strip_code_block ''```json\<newline>[]\<newline>```'' = Inr ''[]''"
  by (simp add: strip_code_block_def py_split_def py_index_def strip_def py_isspace_def)

text \<open>
  The pieces that \<^verbatim>\<open>split\<close> returns, in terms of the text around the leftmost
  occurrence of the separator: the first piece is the text before it, and the other
  pieces are those of the text after it.
\<close>

lemma text_after_prefix:
  "sep \<noteq> [] \<Longrightarrow> prefix sep (c # cs) \<Longrightarrow> text_after sep (c # cs) = drop (length sep - 1) cs"
  by (cases sep) simp_all

lemma split_from_text:
  assumes "sep \<noteq> []"
  shows "split_from sep cur s =
     (cur @ text_before sep s)
       # (if contains sep s then split_from sep [] (text_after sep s) else [])"
proof (induction s arbitrary: cur)
  case Nil
  with assms show ?case by simp
next
  case (Cons c cs)
  show ?case
  proof (cases "prefix sep (c # cs)")
    case True
    with assms text_after_prefix [OF assms True] show ?thesis by simp
  next
    case False
    with Cons [of "cur @ [c]"] show ?thesis by simp
  qed
qed

lemma split_from_0: "sep \<noteq> [] \<Longrightarrow> split_from sep [] s ! 0 = text_before sep s"
  by (subst split_from_text) simp_all

lemma split_from_1:
  assumes "sep \<noteq> []" "contains sep s"
  shows "split_from sep [] s ! 1 = text_before sep (text_after sep s)"
proof -
  have "split_from sep [] s = text_before sep s # split_from sep [] (text_after sep s)"
    using assms by (subst split_from_text) simp_all
  then have "split_from sep [] s ! 1 = split_from sep [] (text_after sep s) ! 0"
    by simp
  with split_from_0 [OF assms(1), of "text_after sep s"] show ?thesis by simp
qed

lemma text_before_no_sep: "\<not> contains sep s \<Longrightarrow> text_before sep s = s"
  by (induction s) auto

lemma text_around:
  "contains sep s \<Longrightarrow> s = text_before sep s @ sep @ text_after sep s"
proof (induction s)
  case Nil
  then show ?case by simp
next
  case (Cons c cs)
  show ?case
  proof (cases "prefix sep (c # cs)")
    case True
    then obtain r where r: "c # cs = sep @ r" by (auto simp: prefix_def)
    from True have tb: "text_before sep (c # cs) = []"
      and ta: "text_after sep (c # cs) = drop (length sep) (c # cs)"
      by simp_all
    have d: "drop (length sep) (c # cs) = r" unfolding r by simp
    show ?thesis unfolding tb ta d using r by simp
  next
    case False
    with Cons show ?thesis by simp
  qed
qed

lemma text_before_leftmost:
  assumes "sep \<noteq> []" "contains sep s"
  shows "\<not> contains sep (text_before sep s @ butlast sep)"
  using assms(2)
proof (induction s)
  case Nil
  with assms(1) show ?case by simp
next
  case (Cons c cs)
  show ?case
  proof (cases "prefix sep (c # cs)")
    case True
    have "length (butlast sep) < length sep" using assms(1) by simp
    then have "\<not> contains sep (butlast sep)" using contains_length [of sep "butlast sep"] by auto
    with True show ?thesis by simp
  next
    case False
    with Cons.prems have c: "contains sep cs" by simp
    from Cons.IH [OF c] have ih: "\<not> contains sep (text_before sep cs @ butlast sep)" .
    have "prefix (text_before sep cs @ butlast sep) cs"
    proof -
      have "cs = (text_before sep cs @ butlast sep) @ [last sep] @ text_after sep cs"
        using text_around [OF c] assms(1) by (metis append.assoc append_butlast_last_id)
      then show ?thesis by (metis prefixI)
    qed
    then have "prefix (c # text_before sep cs @ butlast sep) (c # cs)" by simp
    with False have "\<not> prefix sep (c # text_before sep cs @ butlast sep)"
      using prefix_order.trans by blast
    with ih False show ?thesis by simp
  qed
qed

lemma prefix_text_before: "prefix (text_before sep s) s"
  by (induction s) auto

lemma not_contains_text_before:
  assumes "sep \<noteq> []"
  shows "\<not> contains sep (text_before sep s)"
proof (induction s)
  case Nil
  with assms show ?case by simp
next
  case (Cons c cs)
  show ?case
  proof (cases "prefix sep (c # cs)")
    case True
    with assms show ?thesis by simp
  next
    case False
    have "prefix (c # text_before sep cs) (c # cs)" using prefix_text_before by simp
    with False have "\<not> prefix sep (c # text_before sep cs)"
      using prefix_order.trans by blast
    with Cons False show ?thesis by simp
  qed
qed

lemma text_before_idem: "sep \<noteq> [] \<Longrightarrow> text_before sep (text_before sep s) = text_before sep s"
  by (simp add: text_before_no_sep not_contains_text_before)

lemma strip_code_block_text:
  "strip_code_block s = Inr
     (if contains ''```json'' s
        then strip (text_before ''```'' (text_before ''```json'' (text_after ''```json'' s)))
      else if contains ''```'' s
        then strip (text_before ''```'' (text_after ''```'' s))
      else s)"
proof -
  define fj where "fj = ''```json''"
  define fence where "fence = ''```''"
  have ne: "fj \<noteq> []" "fence \<noteq> []" by (simp_all add: fj_def fence_def)
  have a: "split_from fence [] (split_from fj [] s ! 1) ! 0
      = text_before fence (text_before fj (text_after fj s))" if "contains fj s"
    using split_from_1 [OF ne(1) that] split_from_0 [OF ne(2)] by simp
  have b: "split_from fence [] (split_from fence [] s ! 1) ! 0
      = text_before fence (text_after fence s)" if "contains fence s"
    using split_from_1 [OF ne(2) that] split_from_0 [OF ne(2)] text_before_idem [OF ne(2)]
    by simp
  show ?thesis
    using a b unfolding fj_def fence_def
    by (simp only: strip_code_block_eq split: if_splits) simp
qed

subsection \<open>Contact extractor\<close>

lemma parse_content_not_str: "(\<forall>s. c \<noteq> JStr s) \<Longrightarrow> \<exists>e. parse_content E c = Inl e"
  by (cases c) (auto simp: parse_content_def bind_exn_def)

lemma extract_all_contacts_str:
  assumes "openrouter_post E summary = Response 200 (Inr data)"
    and "message_content data = Inr (JStr s)" and "strip_code_block s = Inr t"
  shows "extract_all_contacts E summary =
     (case json_loads E t of Inl e \<Rightarrow> [] | Inr v \<Rightarrow> (case v of JArr xs \<Rightarrow> xs | _ \<Rightarrow> []))"
  using assms
  by (simp add: extract_all_contacts_def reply_contacts_def parse_content_def
        split: sum.splits)

lemma extract_all_contacts_not_str:
  assumes "openrouter_post E summary = Response 200 (Inr data)"
    and "\<forall>s. message_content data \<noteq> Inr (JStr s)"
  shows "extract_all_contacts E summary = []"
proof (cases "message_content data")
  case (Inl e)
  with assms show ?thesis by (simp add: extract_all_contacts_def reply_contacts_def)
next
  case (Inr c)
  with assms have "\<forall>s. c \<noteq> JStr s" by auto
  then obtain e where "parse_content E c = Inl e" using parse_content_not_str by blast
  with Inr assms show ?thesis by (simp add: extract_all_contacts_def reply_contacts_def)
qed

lemma extract_all_contacts_failed:
  "(\<exists>e. openrouter_post E summary = Raised e)
   \<or> (\<exists>status body. openrouter_post E summary = Response status body
         \<and> (status \<noteq> 200 \<or> (\<exists>e. body = Inl e)))
   \<Longrightarrow> extract_all_contacts E summary = []"
  by (auto simp: extract_all_contacts_def)

text \<open>
  Claim C1. For every reply of the language model that is a string \<open>s\<close>, the removal
  of the code block returns a text and never raises (no index is out of range). When
  \<open>s\<close> holds \<^verbatim>\<open>```json\<close>, the text is the stripped part of \<open>s\<close> that lies after the first
  \<^verbatim>\<open>```json\<close>, up to the next \<^verbatim>\<open>```json\<close> if there is one, and of that the part before
  its first \<^verbatim>\<open>```\<close>; the tagged fence has precedence over a bare one, also over one
  that comes earlier in \<open>s\<close>. Otherwise, when \<open>s\<close> holds \<^verbatim>\<open>```\<close>, the text is the stripped
  part of \<open>s\<close> between the first \<^verbatim>\<open>```\<close> and the next one, or the end of \<open>s\<close> when the
  fence is not closed. Without any fence the text is \<open>s\<close> itself. Here \<open>text_before\<close>
  and \<open>text_after\<close> cut a text at the leftmost occurrence of a separator: the text is
  the part before, the separator and the part after, no occurrence of the separator
  starts before that one, and a text without the separator is left whole. In
  particular, when \<open>s\<close> holds one block with no backquote before it and none in its
  body, the text is the stripped body of that block. That text is given to
  \<^verbatim>\<open>json.loads\<close>: when parsing fails the extractor returns the empty list, when it
  yields a value that is not an array it returns the empty list, and when it yields an
  array it returns its elements. The reply \<^verbatim>\<open>```json\n[]\n```\<close> is parsed as the text
  \<^verbatim>\<open>[]\<close> and gives the empty list with no exception on the way.
\<close>

theorem extract_all_contacts_recovery:
  "strip_code_block s = Inr
     (if contains ''```json'' s
        then strip (text_before ''```'' (text_before ''```json'' (text_after ''```json'' s)))
      else if contains ''```'' s
        then strip (text_before ''```'' (text_after ''```'' s))
      else s)
   \<and> (\<forall>sep t. sep \<noteq> [] \<and> contains sep t \<longrightarrow>
         t = text_before sep t @ sep @ text_after sep t
         \<and> \<not> contains sep (text_before sep t @ butlast sep))
   \<and> (\<forall>sep t. \<not> contains sep t \<longrightarrow> text_before sep t = t)
   \<and> (\<forall>pre body post.
         s = pre @ ''```json'' @ body @ ''```'' @ post
         \<and> CHR 0x60 \<notin> set pre \<and> CHR 0x60 \<notin> set body
         \<and> \<not> contains ''```json'' (body @ ''```'' @ post)
        \<longrightarrow> strip_code_block s = Inr (strip body))
   \<and> (\<forall>pre body post.
         \<not> contains ''```json'' s \<and> s = pre @ ''```'' @ body @ ''```'' @ post
         \<and> CHR 0x60 \<notin> set pre \<and> CHR 0x60 \<notin> set body
        \<longrightarrow> strip_code_block s = Inr (strip body))
   \<and> (\<forall>data t. openrouter_post E summary = Response 200 (Inr data)
          \<and> message_content data = Inr (JStr s) \<and> strip_code_block s = Inr t
        \<longrightarrow> (\<forall>e. json_loads E t = Inl e \<longrightarrow> extract_all_contacts E summary = [])
          \<and> (\<forall>v. json_loads E t = Inr v \<and> (\<forall>xs. v \<noteq> JArr xs)
                \<longrightarrow> extract_all_contacts E summary = [])
          \<and> (\<forall>xs. json_loads E t = Inr (JArr xs) \<longrightarrow> extract_all_contacts E summary = xs))
   \<and> strip_code_block ''```json\<newline>[]\<newline>```'' = Inr ''[]''
   \<and> (\<forall>data. openrouter_post E summary = Response 200 (Inr data)
          \<and> message_content data = Inr (JStr ''```json\<newline>[]\<newline>```'')
          \<and> json_loads E ''[]'' = Inr (JArr [])
        \<longrightarrow> reply_contacts E data = Inr [] \<and> extract_all_contacts E summary = [])"
proof -
  have 1: "\<forall>sep t. sep \<noteq> [] \<and> contains sep t \<longrightarrow>
         t = text_before sep t @ sep @ text_after sep t
         \<and> \<not> contains sep (text_before sep t @ butlast sep)"
    using text_around text_before_leftmost by blast
  have whole_text: "\<forall>sep t. \<not> contains sep t \<longrightarrow> text_before sep t = t"
    using text_before_no_sep by blast
  have 2: "\<forall>pre body post.
         s = pre @ ''```json'' @ body @ ''```'' @ post
         \<and> CHR 0x60 \<notin> set pre \<and> CHR 0x60 \<notin> set body
         \<and> \<not> contains ''```json'' (body @ ''```'' @ post)
        \<longrightarrow> strip_code_block s = Inr (strip body)"
    using strip_code_block_tagged by blast
  have 3: "\<forall>pre body post.
         \<not> contains ''```json'' s \<and> s = pre @ ''```'' @ body @ ''```'' @ post
         \<and> CHR 0x60 \<notin> set pre \<and> CHR 0x60 \<notin> set body
        \<longrightarrow> strip_code_block s = Inr (strip body)"
    using strip_code_block_bare by blast
  have 5: "\<forall>data t. openrouter_post E summary = Response 200 (Inr data)
          \<and> message_content data = Inr (JStr s) \<and> strip_code_block s = Inr t
        \<longrightarrow> (\<forall>e. json_loads E t = Inl e \<longrightarrow> extract_all_contacts E summary = [])
          \<and> (\<forall>v. json_loads E t = Inr v \<and> (\<forall>xs. v \<noteq> JArr xs)
                \<longrightarrow> extract_all_contacts E summary = [])
          \<and> (\<forall>xs. json_loads E t = Inr (JArr xs) \<longrightarrow> extract_all_contacts E summary = xs)"
  proof (intro allI impI, elim conjE)
    fix data t
    assume a: "openrouter_post E summary = Response 200 (Inr data)"
      "message_content data = Inr (JStr s)" "strip_code_block s = Inr t"
    show "(\<forall>e. json_loads E t = Inl e \<longrightarrow> extract_all_contacts E summary = [])
          \<and> (\<forall>v. json_loads E t = Inr v \<and> (\<forall>xs. v \<noteq> JArr xs)
                \<longrightarrow> extract_all_contacts E summary = [])
          \<and> (\<forall>xs. json_loads E t = Inr (JArr xs) \<longrightarrow> extract_all_contacts E summary = xs)"
      unfolding extract_all_contacts_str [OF a]
      by (auto split: json.splits)
  qed
  have 6: "\<forall>data. openrouter_post E summary = Response 200 (Inr data)
          \<and> message_content data = Inr (JStr ''```json\<newline>[]\<newline>```'')
          \<and> json_loads E ''[]'' = Inr (JArr [])
        \<longrightarrow> reply_contacts E data = Inr [] \<and> extract_all_contacts E summary = []"
    by (simp add: extract_all_contacts_def reply_contacts_def parse_content_def
          strip_code_block_example)
  from strip_code_block_text [of s] 1 whole_text 2 3 5 strip_code_block_example 6
  show ?thesis by (intro conjI)
qed

lemma message_content_llm_reply: "message_content (llm_reply c) = Inr c"
  by (simp add: message_content_def llm_reply_def py_index_def)

text \<open>
  The theorem at the reply for Globex of the example run (a tagged block), at a reply
  that is no JSON, at a bare block around an object, at the reply of the scenario, and
  at replies outside the simple cases: a backquote before the block, a bare block
  before a tagged one, two tagged blocks, a fence that is not closed, and a tagged
  fence that follows a backquote.
\<close>

theorem extract_all_contacts_recovery_witness:
  "strip_code_block globex_text = Inr globex_inner
   \<and> json_loads example_env globex_inner = Inr globex_value
   \<and> JArr (extract_all_contacts example_env ''globex.com'') = globex_value
   \<and> \<not> contains ''```'' ''No contacts found.''
   \<and> strip_code_block ''No contacts found.'' = Inr ''No contacts found.''
   \<and> json_loads example_env ''No contacts found.'' = Inl JSONDecodeError
   \<and> extract_all_contacts
        (example_env\<lparr>openrouter_post :=
           \<lambda>s. Response 200 (Inr (llm_reply (JStr ''No contacts found.'')))\<rparr>) ''x'' = []
   \<and> strip_code_block ''```\<newline>{}\<newline>```'' = Inr ''{}''
   \<and> extract_all_contacts
        (example_env\<lparr>openrouter_post :=
           \<lambda>s. Response 200 (Inr (llm_reply (JStr ''```\<newline>{}\<newline>```''))),
           json_loads := loads_table [(''{}'', JObj [])]\<rparr>) ''x'' = []
   \<and> extract_all_contacts
        (example_env\<lparr>openrouter_post :=
           \<lambda>s. Response 200 (Inr (llm_reply (JStr ''```json\<newline>[]\<newline>```''))),
           json_loads := loads_table [(''[]'', JArr [])]\<rparr>) ''x'' = []
   \<and> strip_code_block ''Here are the `contacts`:\<newline>```json\<newline>[]\<newline>```'' = Inr ''[]''
   \<and> strip_code_block ''```\<newline>a\<newline>```\<newline>```json\<newline>[1]\<newline>```'' = Inr ''[1]''
   \<and> strip_code_block ''```json\<newline>[1]\<newline>```\<newline>```json\<newline>[2]\<newline>```'' = Inr ''[1]''
   \<and> strip_code_block ''```json\<newline>[]'' = Inr ''[]''
   \<and> strip_code_block ''x````json\<newline>[]\<newline>```'' = Inr ''[]''
   \<and> text_before ''```'' ''a```b```c'' = ''a''
   \<and> text_after ''```'' ''a```b```c'' = ''b```c''
   \<and> \<not> contains ''```'' (''a'' @ butlast ''```'')
   \<and> \<not> contains ''```json'' ''a```b```c''
   \<and> text_before ''```json'' ''a```b```c'' = ''a```b```c''"
proof -
  define E2 where "E2 = example_env\<lparr>openrouter_post :=
           \<lambda>s. Response 200 (Inr (llm_reply (JStr ''No contacts found.'')))\<rparr>"
  define E3 where "E3 = example_env\<lparr>openrouter_post :=
           \<lambda>s. Response 200 (Inr (llm_reply (JStr ''```\<newline>{}\<newline>```''))),
           json_loads := loads_table [(''{}'', JObj [])]\<rparr>"
  define E4 where "E4 = example_env\<lparr>openrouter_post :=
           \<lambda>s. Response 200 (Inr (llm_reply (JStr ''```json\<newline>[]\<newline>```''))),
           json_loads := loads_table [(''[]'', JArr [])]\<rparr>"
  note mc = message_content_llm_reply
  note general = extract_all_contacts_recovery [THEN conjunct1]
  note around = extract_all_contacts_recovery [THEN conjunct2, THEN conjunct1, rule_format]
  note whole = extract_all_contacts_recovery [THEN conjunct2, THEN conjunct2, THEN conjunct1,
      rule_format]
  note tagged = extract_all_contacts_recovery [THEN conjunct2, THEN conjunct2, THEN conjunct2,
      THEN conjunct1, rule_format]
  note bare = extract_all_contacts_recovery [THEN conjunct2, THEN conjunct2, THEN conjunct2,
      THEN conjunct2, THEN conjunct1, rule_format]
  note parsed = extract_all_contacts_recovery [THEN conjunct2, THEN conjunct2, THEN conjunct2,
      THEN conjunct2, THEN conjunct2, THEN conjunct1, rule_format]
  note scenario = extract_all_contacts_recovery [THEN conjunct2, THEN conjunct2, THEN conjunct2,
      THEN conjunct2, THEN conjunct2, THEN conjunct2, THEN conjunct2, rule_format]
  \<comment> \<open>the tagged code block of the Globex reply\<close>
  have g: "globex_text = [] @ ''```json'' @ (''\<newline>'' @ globex_inner @ ''\<newline>'') @ ''```'' @ []
      \<and> CHR 0x60 \<notin> set [] \<and> CHR 0x60 \<notin> set (''\<newline>'' @ globex_inner @ ''\<newline>'')
      \<and> \<not> contains ''```json'' ((''\<newline>'' @ globex_inner @ ''\<newline>'') @ ''```'' @ [])"
    by (simp add: globex_text_def globex_inner_def)
  have gs: "strip (''\<newline>'' @ globex_inner @ ''\<newline>'') = globex_inner"
    by (simp add: globex_inner_def strip_def py_isspace_def)
  have 1: "strip_code_block globex_text = Inr globex_inner"
    using tagged [of globex_text, OF g] by (simp only: gs)
  have gp: "openrouter_post example_env ''globex.com'' =
      Response 200 (Inr (llm_reply (JStr globex_text)))"
    by (simp add: example_env_def)
  have gl: "json_loads example_env globex_inner = Inr globex_value"
    by (simp add: example_env_def loads_table_def acme_text_def globex_inner_def)
  have gh: "openrouter_post example_env ''globex.com''
        = Response 200 (Inr (llm_reply (JStr globex_text)))
      \<and> message_content (llm_reply (JStr globex_text)) = Inr (JStr globex_text)
      \<and> strip_code_block globex_text = Inr globex_inner"
    using gp mc [of "JStr globex_text"] 1 by (intro conjI)
  have gl': "json_loads example_env globex_inner =
      Inr (JArr [JObj [(''first_name'', JStr ''Hank''), (''last_name'', JStr ''Scorpio''),
            (''title'', JStr ''CEO''),
            (''linkedin_url'', JStr '' https://www.linkedin.com/in/hank-scorpio ''),
            (''domain'', JStr ''example.org'')]])"
    by (simp only: gl globex_value_def)
  have 2: "JArr (extract_all_contacts example_env ''globex.com'') = globex_value"
    using parsed [OF gh, THEN conjunct2, THEN conjunct2, rule_format, OF gl']
    by (simp only: globex_value_def)
  \<comment> \<open>a reply without a code block that is not JSON\<close>
  have n: "\<not> contains ''```'' ''No contacts found.''" by simp
  have 3: "strip_code_block ''No contacts found.'' = Inr ''No contacts found.''"
    using general [of "''No contacts found.''"] by simp
  have nl: "json_loads E2 ''No contacts found.'' = Inl JSONDecodeError"
    "json_loads example_env ''No contacts found.'' = Inl JSONDecodeError"
    by (simp_all add: E2_def example_env_def loads_table_def acme_text_def globex_inner_def
          initech_text_def)
  have np: "openrouter_post E2 ''x'' =
      Response 200 (Inr (llm_reply (JStr ''No contacts found.'')))"
    by (simp add: E2_def)
  have nh: "openrouter_post E2 ''x''
        = Response 200 (Inr (llm_reply (JStr ''No contacts found.'')))
      \<and> message_content (llm_reply (JStr ''No contacts found.''))
          = Inr (JStr ''No contacts found.'')
      \<and> strip_code_block ''No contacts found.'' = Inr ''No contacts found.''"
    using np mc [of "JStr ''No contacts found.''"] 3 by (intro conjI)
  have 4: "extract_all_contacts E2 ''x'' = []"
    using parsed [OF nh, THEN conjunct1, rule_format, OF nl(1)] .
  \<comment> \<open>a bare code block around an object\<close>
  have b: "\<not> contains ''```json'' ''```\<newline>{}\<newline>```''
      \<and> ''```\<newline>{}\<newline>```'' = [] @ ''```'' @ ''\<newline>{}\<newline>'' @ ''```'' @ []
      \<and> CHR 0x60 \<notin> set [] \<and> CHR 0x60 \<notin> set ''\<newline>{}\<newline>''"
    by simp
  have bs: "strip ''\<newline>{}\<newline>'' = ''{}''" by (simp add: strip_def py_isspace_def)
  have 5: "strip_code_block ''```\<newline>{}\<newline>```'' = Inr ''{}''"
    using bare [of "''```\<newline>{}\<newline>```''", OF b] by (simp only: bs)
  have bp: "openrouter_post E3 ''x'' = Response 200 (Inr (llm_reply (JStr ''```\<newline>{}\<newline>```'')))"
    and bl: "json_loads E3 ''{}'' = Inr (JObj [])"
    by (simp_all add: E3_def loads_table_def)
  have bh: "openrouter_post E3 ''x''
        = Response 200 (Inr (llm_reply (JStr ''```\<newline>{}\<newline>```'')))
      \<and> message_content (llm_reply (JStr ''```\<newline>{}\<newline>```''))
          = Inr (JStr ''```\<newline>{}\<newline>```'')
      \<and> strip_code_block ''```\<newline>{}\<newline>```'' = Inr ''{}''"
    using bp mc [of "JStr ''```\<newline>{}\<newline>```''"] 5 by (intro conjI)
  have bn: "json_loads E3 ''{}'' = Inr (JObj []) \<and> (\<forall>xs. JObj [] \<noteq> JArr xs)"
    using bl by simp
  have 6: "extract_all_contacts E3 ''x'' = []"
    using parsed [OF bh, THEN conjunct2, THEN conjunct1, rule_format, OF bn] .
  \<comment> \<open>the reply of the specification's scenario\<close>
  have ep: "openrouter_post E4 ''x'' =
      Response 200 (Inr (llm_reply (JStr ''```json\<newline>[]\<newline>```'')))"
    and el: "json_loads E4 ''[]'' = Inr (JArr [])"
    by (simp_all add: E4_def loads_table_def)
  have eh: "openrouter_post E4 ''x''
        = Response 200 (Inr (llm_reply (JStr ''```json\<newline>[]\<newline>```'')))
      \<and> message_content (llm_reply (JStr ''```json\<newline>[]\<newline>```''))
          = Inr (JStr ''```json\<newline>[]\<newline>```'')
      \<and> json_loads E4 ''[]'' = Inr (JArr [])"
    using ep mc [of "JStr ''```json\<newline>[]\<newline>```''"] el by (intro conjI)
  have 7: "extract_all_contacts E4 ''x'' = []"
    using scenario [OF eh] by (rule conjunct2)
  \<comment> \<open>replies outside the simple cases\<close>
  have 8: "strip_code_block ''Here are the `contacts`:\<newline>```json\<newline>[]\<newline>```'' = Inr ''[]''"
    using general [of "''Here are the `contacts`:\<newline>```json\<newline>[]\<newline>```''"]
    by (simp add: strip_def py_isspace_def)
  have 9: "strip_code_block ''```\<newline>a\<newline>```\<newline>```json\<newline>[1]\<newline>```'' = Inr ''[1]''"
    using general [of "''```\<newline>a\<newline>```\<newline>```json\<newline>[1]\<newline>```''"]
    by (simp add: strip_def py_isspace_def)
  have 10: "strip_code_block ''```json\<newline>[1]\<newline>```\<newline>```json\<newline>[2]\<newline>```'' = Inr ''[1]''"
    using general [of "''```json\<newline>[1]\<newline>```\<newline>```json\<newline>[2]\<newline>```''"]
    by (simp add: strip_def py_isspace_def)
  have 11: "strip_code_block ''```json\<newline>[]'' = Inr ''[]''"
    using general [of "''```json\<newline>[]''"]
    by (simp add: strip_def py_isspace_def)
  have 12: "strip_code_block ''x````json\<newline>[]\<newline>```'' = Inr ''[]''"
    using general [of "''x````json\<newline>[]\<newline>```''"]
    by (simp add: strip_def py_isspace_def)
  \<comment> \<open>the text around the first fence\<close>
  have ah: "''```'' \<noteq> [] \<and> contains ''```'' ''a```b```c''" by simp
  have tb: "text_before ''```'' ''a```b```c'' = ''a''"
    and ta: "text_after ''```'' ''a```b```c'' = ''b```c''"
    by simp_all
  have 13: "\<not> contains ''```'' (''a'' @ butlast ''```'')"
    using around [OF ah, THEN conjunct2] unfolding tb .
  have wh: "\<not> contains ''```json'' ''a```b```c''" by simp
  have 14: "text_before ''```json'' ''a```b```c'' = ''a```b```c''"
    using whole [OF wh] .
  from 1 gl 2 n 3 nl(2) 4 5 6 7 8 9 10 11 12 tb ta 13 wh 14 show ?thesis
    unfolding E2_def E3_def E4_def by (intro conjI)
qed

subsection \<open>Duplicate records and malformed replies\<close>

lemma map_exn_normalize_objs:
  "\<exists>cs. map_exn (normalize_contact d n) (map JObj kvss) = Inr cs
     \<and> length cs = length kvss
     \<and> (\<forall>i<length kvss. \<exists>kvs'. cs ! i = JObj kvs'
           \<and> map_of kvs' ''first_name'' = map_of (kvss ! i) ''first_name''
           \<and> map_of kvs' ''last_name'' = map_of (kvss ! i) ''last_name''
           \<and> map_of kvs' ''title'' = map_of (kvss ! i) ''title'')"
proof (induction kvss)
  case Nil
  then show ?case by simp
next
  case (Cons kvs kvss)
  then obtain cs where cs: "map_exn (normalize_contact d n) (map JObj kvss) = Inr cs"
    "length cs = length kvss"
    "\<forall>i<length kvss. \<exists>kvs'. cs ! i = JObj kvs'
           \<and> map_of kvs' ''first_name'' = map_of (kvss ! i) ''first_name''
           \<and> map_of kvs' ''last_name'' = map_of (kvss ! i) ''last_name''
           \<and> map_of kvs' ''title'' = map_of (kvss ! i) ''title''"
    by blast
  from normalize_contact_obj [of d n kvs] obtain kvs' where
    k: "normalize_contact d n (JObj kvs) = Inr (JObj kvs')"
    and m: "map_of kvs' ''first_name'' = map_of kvs ''first_name''"
      "map_of kvs' ''last_name'' = map_of kvs ''last_name''"
      "map_of kvs' ''title'' = map_of kvs ''title''"
    by auto
  have "map_exn (normalize_contact d n) (map JObj (kvs # kvss)) = Inr (JObj kvs' # cs)"
    using k cs(1) by simp
  moreover have "length (JObj kvs' # cs) = length (kvs # kvss)" using cs(2) by simp
  moreover have "\<forall>i<length (kvs # kvss). \<exists>kvs''. (JObj kvs' # cs) ! i = JObj kvs''
           \<and> map_of kvs'' ''first_name'' = map_of ((kvs # kvss) ! i) ''first_name''
           \<and> map_of kvs'' ''last_name'' = map_of ((kvs # kvss) ! i) ''last_name''
           \<and> map_of kvs'' ''title'' = map_of ((kvs # kvss) ! i) ''title''"
    using m cs(3) by (auto simp: nth_Cons split: nat.splits)
  ultimately show ?case by blast
qed

lemma length_filter_pointwise:
  "length xs = length ys \<Longrightarrow> (\<forall>i<length xs. P (xs ! i) = Q (ys ! i))
   \<Longrightarrow> length (filter P xs) = length (filter Q ys)"
proof (induction xs ys rule: list_induct2)
  case Nil
  then show ?case by simp
next
  case (Cons x xs y ys)
  from Cons.prems have "P x = Q y" by fastforce
  moreover from Cons.prems have "\<forall>i<length xs. P (xs ! i) = Q (ys ! i)" by fastforce
  ultimately show ?case using Cons.IH by simp
qed

text \<open>
  Claim C9. The program has no step that merges the records of one person; the only
  place where merging is asked for is the prompt sent to the language model. What the
  code guarantees is this: when the reply of the language model parses to an array of
  dicts, \<^verbatim>\<open>process_company\<close> returns one contact for each of them, in the order of the
  reply, with \<^verbatim>\<open>first_name\<close>, \<^verbatim>\<open>last_name\<close> and \<^verbatim>\<open>title\<close> as they were. So the
  output holds as many records of a person as the reply does: two records of Clint
  Dorman in the reply give two in the output, each with its own title.
\<close>

theorem process_company_keeps_duplicates:
  "\<forall>qs summary kvss.
     generate_queries domain company_name = Inr qs
     \<and> format_search_results (py_str E) (map (search_serper E) qs) = Inr summary
     \<and> extract_all_contacts E summary = map JObj kvss
     \<longrightarrow> (\<exists>cs. process_company E domain company_name = Inr cs
           \<and> length cs = length kvss
           \<and> (\<forall>i<length kvss.
                 py_getitem (cs ! i) ''first_name'' = py_getitem (JObj (kvss ! i)) ''first_name''
                 \<and> py_getitem (cs ! i) ''last_name'' = py_getitem (JObj (kvss ! i)) ''last_name''
                 \<and> py_getitem (cs ! i) ''title'' = py_getitem (JObj (kvss ! i)) ''title'')
           \<and> count_person fname lname cs = count_person fname lname (map JObj kvss))"
proof (intro allI impI, elim conjE)
  fix qs summary kvss
  assume q: "generate_queries domain company_name = Inr qs"
    and f: "format_search_results (py_str E) (map (search_serper E) qs) = Inr summary"
    and x: "extract_all_contacts E summary = map JObj kvss"
  from map_exn_normalize_objs [of domain company_name kvss]
  obtain cs where cs: "map_exn (normalize_contact domain company_name) (map JObj kvss) = Inr cs"
    and len: "length cs = length kvss"
    and el: "\<forall>i<length kvss. \<exists>kvs'. cs ! i = JObj kvs'
           \<and> map_of kvs' ''first_name'' = map_of (kvss ! i) ''first_name''
           \<and> map_of kvs' ''last_name'' = map_of (kvss ! i) ''last_name''
           \<and> map_of kvs' ''title'' = map_of (kvss ! i) ''title''"
    by blast
  have pc: "process_company E domain company_name = Inr cs"
    unfolding process_company_unfold using q f x cs by auto
  have keys: "\<forall>i<length kvss.
                 py_getitem (cs ! i) ''first_name'' = py_getitem (JObj (kvss ! i)) ''first_name''
                 \<and> py_getitem (cs ! i) ''last_name'' = py_getitem (JObj (kvss ! i)) ''last_name''
                 \<and> py_getitem (cs ! i) ''title'' = py_getitem (JObj (kvss ! i)) ''title''"
  proof (intro allI impI)
    fix i assume "i < length kvss"
    with el obtain kvs' where "cs ! i = JObj kvs'"
      "map_of kvs' ''first_name'' = map_of (kvss ! i) ''first_name''"
      "map_of kvs' ''last_name'' = map_of (kvss ! i) ''last_name''"
      "map_of kvs' ''title'' = map_of (kvss ! i) ''title''"
      by blast
    then show "py_getitem (cs ! i) ''first_name'' = py_getitem (JObj (kvss ! i)) ''first_name''
                 \<and> py_getitem (cs ! i) ''last_name'' = py_getitem (JObj (kvss ! i)) ''last_name''
                 \<and> py_getitem (cs ! i) ''title'' = py_getitem (JObj (kvss ! i)) ''title''"
      by simp
  qed
  have "\<forall>i<length cs. is_person fname lname (cs ! i) = is_person fname lname (map JObj kvss ! i)"
    using keys len by (simp add: is_person_def)
  then have cnt: "count_person fname lname cs = count_person fname lname (map JObj kvss)"
    unfolding count_person_def using len by (intro length_filter_pointwise) simp_all
  from pc len keys cnt
  show "\<exists>cs. process_company E domain company_name = Inr cs
           \<and> length cs = length kvss
           \<and> (\<forall>i<length kvss.
                 py_getitem (cs ! i) ''first_name'' = py_getitem (JObj (kvss ! i)) ''first_name''
                 \<and> py_getitem (cs ! i) ''last_name'' = py_getitem (JObj (kvss ! i)) ''last_name''
                 \<and> py_getitem (cs ! i) ''title'' = py_getitem (JObj (kvss ! i)) ''title'')
           \<and> count_person fname lname cs = count_person fname lname (map JObj kvss)"
    by blast
qed

text \<open>The theorem at the reply for Acme of the example run, which holds both records.\<close>

theorem process_company_keeps_duplicates_witness:
  "(\<exists>qs summary. generate_queries ''acme.com'' ''Acme'' = Inr qs
      \<and> format_search_results (py_str example_env) (map (search_serper example_env) qs)
          = Inr summary
      \<and> JArr (extract_all_contacts example_env summary) = acme_value)
   \<and> process_company example_env ''acme.com'' ''Acme'' = Inr acme_contacts
   \<and> length acme_contacts = 2
   \<and> count_person ''Clint'' ''Dorman'' acme_contacts = 2"
proof -
  define kvss :: "(string \<times> json) list list" where "kvss =
     [[(''first_name'', JStr ''Clint''), (''last_name'', JStr ''Dorman''),
       (''title'', JStr ''VP Finance'')],
      [(''first_name'', JStr ''Clint''), (''last_name'', JStr ''Dorman''),
       (''title'', JStr ''VP of Finance and Operations'')]]"
  define qs where "qs =
     [''acme.com Acme CEO -zoominfo -dnb'',
      ''acme.com Acme Founder owner -zoominfo -dnb'',
      ''acme.com Acme president chairman -zoominfo -dnb'',
      ''acme.com Acme partner -zoominfo -dnb'',
      ''acme.com Acme contact email'']"
  define summary where
    "summary = spec_summary (py_str example_env) (map (\<lambda>q. (q, [])) qs)"
  have q: "generate_queries ''acme.com'' ''Acme'' = Inr qs"
    by (simp add: generate_queries_eq qs_def)
  have f: "format_search_results (py_str example_env) (map (search_serper example_env) qs)
      = Inr summary"
    unfolding summary_def
    by (intro format_search_results_spec)
       (simp add: qs_def search_serper_def example_env_def is_search_result_def
          empty_result_def)
  have x: "extract_all_contacts example_env summary = map JObj kvss"
    by (simp add: summary_def qs_def kvss_def spec_summary_def spec_section_def
          map_filter_simps example_defs)
  from process_company_keeps_duplicates [of "''acme.com''" "''Acme''" example_env
      "''Clint''" "''Dorman''", rule_format, OF conjI [OF q conjI [OF f x]]]
  obtain cs where pc: "process_company example_env ''acme.com'' ''Acme'' = Inr cs"
    and len: "length cs = length kvss"
    and cnt: "count_person ''Clint'' ''Dorman'' cs = count_person ''Clint'' ''Dorman'' (map JObj kvss)"
    by blast
  have cnt2: "count_person ''Clint'' ''Dorman'' (map JObj kvss) = 2"
    by (simp add: kvss_def count_person_def is_person_def)
  from pc example_acme have cs: "cs = acme_contacts" by simp
  have v: "JArr (extract_all_contacts example_env summary) = acme_value"
    by (simp only: x) (simp add: kvss_def acme_value_def)
  from q f v have 1: "\<exists>qs summary. generate_queries ''acme.com'' ''Acme'' = Inr qs
      \<and> format_search_results (py_str example_env) (map (search_serper example_env) qs)
          = Inr summary
      \<and> JArr (extract_all_contacts example_env summary) = acme_value"
    by blast
  from len cs have 2: "length acme_contacts = 2" by (simp add: kvss_def)
  from cnt cnt2 cs have 3: "count_person ''Clint'' ''Dorman'' acme_contacts = 2" by simp
  from 1 example_acme 2 3 show ?thesis by (intro conjI)
qed

text \<open>
  Against the claim as it was made: in the example run the reply for Acme parses to the
  two records of Clint Dorman, and both the company's pipeline and the run return two
  records of Clint Dorman, the first with the shorter title.
\<close>

theorem dedup_counterexample:
  "json_loads example_env acme_text = Inr acme_value
   \<and> process_company example_env ''acme.com'' ''Acme'' = Inr acme_contacts
   \<and> run example_env [acme] = Inr acme_contacts
   \<and> count_person ''Clint'' ''Dorman'' acme_contacts = 2
   \<and> py_getitem (acme_contacts ! 0) ''title'' = Inr (JStr ''VP Finance'')
   \<and> py_getitem (acme_contacts ! 1) ''title'' = Inr (JStr ''VP of Finance and Operations'')"
proof -
  have l: "json_loads example_env acme_text = Inr acme_value"
    by (simp add: example_env_def loads_table_def)
  have r: "run example_env [acme] = Inr acme_contacts"
    by (simp add: run_process_batch process_batch_def gather_def acme_def example_acme)
  have c: "count_person ''Clint'' ''Dorman'' acme_contacts = 2"
    "py_getitem (acme_contacts ! 0) ''title'' = Inr (JStr ''VP Finance'')"
    "py_getitem (acme_contacts ! 1) ''title'' = Inr (JStr ''VP of Finance and Operations'')"
    by (simp_all add: count_person_def is_person_def acme_contacts_def)
  from l c example_acme r show ?thesis by (intro conjI)
qed

text \<open>
  Claim C3. A failure of one company's pipeline does propagate. In the example run the
  language model answers for Initech with an array that holds a sentence in place of
  dicts; the text parses, the value is an array, and the loop that closes
  \<^verbatim>\<open>process_company\<close> assigns to \<^verbatim>\<open>contact['domain']\<close> on a string, which raises
  \<^verbatim>\<open>TypeError\<close> outside every handler. The run over Acme and Globex returns their
  contacts; with Initech between them it raises \<^verbatim>\<open>TypeError\<close>: the batch is never
  reported complete, and the contacts of Acme and of Globex are lost.
\<close>

theorem malformed_reply_halts_run:
  "json_loads example_env initech_text = Inr (JArr [JStr ''No decision makers found''])
   \<and> process_company example_env ''acme.com'' ''Acme'' = Inr acme_contacts
   \<and> process_company example_env ''globex.com'' ''Globex'' = Inr globex_contacts
   \<and> process_company example_env ''initech.com'' ''Initech'' = Inl TypeError
   \<and> run example_env [acme, globex] = Inr (acme_contacts @ globex_contacts)
   \<and> run example_env [acme, initech, globex] = Inl TypeError
   \<and> run_logged example_env [acme, initech, globex] =
       ([Batch_start 1 1, Processing ''Acme'' ''acme.com'',
         Processing ''Initech'' ''initech.com'', Processing ''Globex'' ''globex.com''],
        Inl TypeError)"
proof -
  have b: "process_batch example_env [acme, initech, globex] = Inl TypeError"
    by (simp add: process_batch_def gather_def acme_def globex_def initech_def example_acme
          example_initech example_globex example_first_raised)
  have g: "run_logged example_env [acme, initech, globex] =
       ([Batch_start 1 1, Processing ''Acme'' ''acme.com'',
         Processing ''Initech'' ''initech.com'', Processing ''Globex'' ''globex.com''],
        Inl TypeError)"
    by (simp add: run_logged_def range_from.simps batch_size_def Let_def b batch_lines_def,
        simp add: acme_def globex_def initech_def)
  have l: "json_loads example_env initech_text = Inr (JArr [JStr ''No decision makers found''])"
    by (simp add: example_env_def loads_table_def initech_value_def acme_text_def
          globex_inner_def initech_text_def)
  from l example_acme example_globex example_initech example_run example_run_failure g
  show ?thesis by (intro conjI)
qed

end
